theory Spec2Isabelle
  imports Complex_Main "HOL-Library.Word" "HOL-Library.Log_Nat"
begin

unbundle bit_operations_syntax

section \<open>Outcomes of a call\<close>

text \<open>
  A call of the library either returns, or runs into behaviour the C++ standard leaves
  undefined (a null or out-of-bounds dereference, a signed overflow, a division by zero),
  or ends the process through \<^verbatim>\<open>exit\<close>. The recursive-descent parsers are modelled
  with fuel; \<open>NoFuel\<close> says that the fuel given was too small.
\<close>

datatype fault = Undefined | ProcessExit | NoFuel

section \<open>The value model (CppON.hpp)\<close>

text \<open>
  \<^verbatim>\<open>COInteger\<close> allocates 1, 2, 4 or 8 bytes for its value (\<^verbatim>\<open>siz\<close>) and keeps a flag
  \<^verbatim>\<open>unSigned\<close>. The copy constructors leave the flag uninitialised, hence the option.
  \<^verbatim>\<open>CODouble\<close> holds a binary64 value and a precision of type \<^verbatim>\<open>char\<close>. A binary64
  value is a finite number, given by the rational it denotes (\<open>Finite 0\<close> is the positive
  zero), the negative zero, an infinity or a NaN; the flag of the last two is the sign bit,
  \<open>True\<close> for negative. A \<^verbatim>\<open>COMap\<close> holds a
  \<^verbatim>\<open>std::map\<close> from keys to node pointers, modelled by the list of its entries in
  ascending key order (the order in which \<^verbatim>\<open>begin()\<close> .. \<^verbatim>\<open>end()\<close> visits them), and
  the vector \<^verbatim>\<open>order\<close> of its keys. A \<^verbatim>\<open>COArray\<close> holds a vector of node pointers.

  A pointer to a node is \<open>NULL\<close> or \<open>Ptr a n\<close>: the address \<open>a\<close> together with the node
  \<open>n\<close> that lives there. A container owns its children, so the store is a tree; the
  address is what a comparison of two pointers looks at.
\<close>

type_synonym addr = nat

datatype int_data = I8 "8 word" | I16 "16 word" | I32 "32 word" | I64 "64 word"

datatype double = Finite rat | MinusZero | Infinity bool | NaN bool

datatype CppON =
    COInteger "bool option" int_data
  | CODouble "8 word" double
  | COString string
  | CONull
  | COBoolean bool
  | COMap "(string \<times> ptr) list" "string list"
  | COArray "ptr list"
and ptr = NULL | Ptr addr CppON

datatype CppONOperator = CPPON_ADD | CPPON_SUBTRACT | CPPON_MULTIPLY | CPPON_DIVIDE

fun siz :: "int_data \<Rightarrow> nat" where
  "siz (I8 _) = 1"
| "siz (I16 _) = 2"
| "siz (I32 _) = 4"
| "siz (I64 _) = 8"

text \<open>\<^verbatim>\<open>COInteger::longValue\<close>: the stored bytes read as a signed integer of their width.\<close>

fun longValue :: "int_data \<Rightarrow> int" where
  "longValue (I8 w) = sint w"
| "longValue (I16 w) = sint w"
| "longValue (I32 w) = sint w"
| "longValue (I64 w) = sint w"

text \<open>The stored bytes read as an unsigned integer of their width.\<close>

fun unsignedValue :: "int_data \<Rightarrow> int" where
  "unsignedValue (I8 w) = uint w"
| "unsignedValue (I16 w) = uint w"
| "unsignedValue (I32 w) = uint w"
| "unsignedValue (I64 w) = uint w"

section \<open>\<^verbatim>\<open>COArray::at\<close> (CppON.hpp)\<close>

text \<open>
  \<^verbatim>\<open>at( unsigned int i )\<close> looks at the \<^verbatim>\<open>data\<close> pointer of the array first, so the
  model takes that pointer: \<open>None\<close> when it is null (an array whose data was deleted),
  \<open>Some v\<close> for the vector it points to.
\<close>

definition COArray_at :: "ptr list option \<Rightarrow> 32 word \<Rightarrow> ptr" where
  "COArray_at data i =
     (case data of
        None \<Rightarrow> NULL
      | Some v \<Rightarrow> if length v \<le> unat i then NULL else v ! unat i)"

section \<open>\<^verbatim>\<open>COInteger::doOperation\<close> and the compound operators\<close>

text \<open>C++ integer division truncates towards zero.\<close>

definition trunc_div :: "int \<Rightarrow> int \<Rightarrow> int" where
  "trunc_div a b = (if (a < 0) = (b < 0) then \<bar>a\<bar> div \<bar>b\<bar> else - (\<bar>a\<bar> div \<bar>b\<bar>))"

text \<open>The exact result of one operator; \<open>None\<close> is a division by zero.\<close>

fun arith :: "CppONOperator \<Rightarrow> int \<Rightarrow> int \<Rightarrow> int option" where
  "arith CPPON_ADD a b = Some (a + b)"
| "arith CPPON_SUBTRACT a b = Some (a - b)"
| "arith CPPON_MULTIPLY a b = Some (a * b)"
| "arith CPPON_DIVIDE a b = (if b = 0 then None else Some (trunc_div a b))"

definition i64_ok :: "int \<Rightarrow> bool" where
  "i64_ok r = (- (2 ^ 63) \<le> r \<and> r < 2 ^ 63)"

definition int_ok :: "int \<Rightarrow> bool" where
  "int_ok r = (- (2 ^ 31) \<le> r \<and> r < 2 ^ 31)"

text \<open>The ternary \<^verbatim>\<open>(lo>rtn)?lo:((hi<rtn)?hi:rtn)\<close>.\<close>

definition clamp :: "int \<Rightarrow> int \<Rightarrow> int \<Rightarrow> int" where
  "clamp lo hi rtn = (if lo > rtn then lo else if hi < rtn then hi else rtn)"

text \<open>
  The signed branches of widths 1, 2 and 4: the value is widened to \<^verbatim>\<open>int64_t\<close>, combined
  with \<^verbatim>\<open>(int64_t) val\<close> (an overflow of that type is undefined), and clamped.
\<close>

definition signed_op :: "int \<Rightarrow> int \<Rightarrow> CppONOperator \<Rightarrow> int \<Rightarrow> int \<Rightarrow> fault + int" where
  "signed_op lo hi op a v =
     (case arith op a v of
        None \<Rightarrow> Inl Undefined
      | Some r \<Rightarrow> if i64_ok r then Inr (clamp lo hi r) else Inl Undefined)"

text \<open>
  The unsigned branches of widths 1 and 2: both operands are promoted to \<^verbatim>\<open>int\<close>, the
  result is converted back to the unsigned type (modulo its range). An overflow of
  \<^verbatim>\<open>int\<close> in between is undefined.
\<close>

definition promoted_op :: "CppONOperator \<Rightarrow> int \<Rightarrow> int \<Rightarrow> fault + int" where
  "promoted_op op a b =
     (case arith op a b of
        None \<Rightarrow> Inl Undefined
      | Some r \<Rightarrow> if int_ok r then Inr r else Inl Undefined)"

text \<open>The unsigned branches of widths 4 and 8: arithmetic modulo the range of the type.\<close>

definition unsigned_op :: "CppONOperator \<Rightarrow> 'a::len word \<Rightarrow> 'a word \<Rightarrow> fault + 'a word" where
  "unsigned_op op a b =
     (case op of
        CPPON_ADD \<Rightarrow> Inr (a + b)
      | CPPON_SUBTRACT \<Rightarrow> Inr (a - b)
      | CPPON_MULTIPLY \<Rightarrow> Inr (a * b)
      | CPPON_DIVIDE \<Rightarrow> if b = 0 then Inl Undefined else Inr (a div b))"

text \<open>
  The first \<^verbatim>\<open>switch( siz )\<close> of \<^verbatim>\<open>doOperation\<close>: the new stored value and \<^verbatim>\<open>rtn\<close>.
\<close>

definition doOperation_store ::
  "bool \<Rightarrow> int_data \<Rightarrow> 64 word \<Rightarrow> CppONOperator \<Rightarrow> fault + (int_data \<times> int)" where
  "doOperation_store unSigned d val op =
     (case d of
        I8 w \<Rightarrow>
          if unSigned then
            (case promoted_op op (uint w) (uint (ucast val :: 8 word)) of
               Inl f \<Rightarrow> Inl f
             | Inr r \<Rightarrow> Inr (I8 (word_of_int r), uint (word_of_int r :: 8 word)))
          else
            (case signed_op (- 128) 127 op (sint w) (sint val) of
               Inl f \<Rightarrow> Inl f
             | Inr rtn \<Rightarrow> Inr (I8 (word_of_int rtn), rtn))
      | I16 w \<Rightarrow>
          if unSigned then
            (case promoted_op op (uint w) (uint (ucast val :: 16 word)) of
               Inl f \<Rightarrow> Inl f
             | Inr r \<Rightarrow> Inr (I16 (word_of_int r), uint (word_of_int r :: 16 word)))
          else
            (case signed_op (- 32768) 32767 op (sint w) (sint val) of
               Inl f \<Rightarrow> Inl f
             | Inr rtn \<Rightarrow> Inr (I16 (word_of_int rtn), rtn))
      | I32 w \<Rightarrow>
          if unSigned then
            (case unsigned_op op w (ucast val :: 32 word) of
               Inl f \<Rightarrow> Inl f
             | Inr r \<Rightarrow> Inr (I32 r, uint r))
          else
            (case signed_op (- 2147483648) 2147483647 op (sint w) (sint val) of
               Inl f \<Rightarrow> Inl f
             | Inr rtn \<Rightarrow> Inr (I32 (word_of_int rtn), rtn))
      | I64 w \<Rightarrow>
          if unSigned then
            (case unsigned_op op w val of
               Inl f \<Rightarrow> Inl f
             | Inr r \<Rightarrow> Inr (I64 r, sint r))
          else
            (case arith op (sint w) (sint val) of
               None \<Rightarrow> Inl Undefined
             | Some r \<Rightarrow> if i64_ok r then Inr (I64 (word_of_int r), r) else Inl Undefined))"

text \<open>
  The second \<^verbatim>\<open>switch( sz )\<close>: the returned value is cut to the size of the operand's
  type. The constants are the source's: 256 for one unsigned byte, and, in the signed
  4-byte case, the test against the decimal \<^verbatim>\<open>-80000000\<close> and the replacement
  \<^verbatim>\<open>-0x80000000\<close>, an \<^verbatim>\<open>unsigned int\<close> of value 2147483648.
\<close>

definition doOperation_return :: "bool \<Rightarrow> nat \<Rightarrow> int \<Rightarrow> int" where
  "doOperation_return unSigned sz rtn =
     (if sz = 1 then
        (if unSigned then (if uint (word_of_int rtn :: 64 word) > 256 then 256 else rtn)
         else (if rtn > 127 then 127 else if rtn < - 128 then - 128 else rtn))
      else if sz = 2 then
        (if unSigned then (if uint (word_of_int rtn :: 64 word) > 65535 then 65535 else rtn)
         else (if rtn > 32767 then 32767 else if rtn < - 32768 then - 32768 else rtn))
      else if sz = 4 then
        (if unSigned then (if uint (word_of_int rtn :: 64 word) > 4294967295 then 4294967295 else rtn)
         else (if rtn > 2147483647 then 2147483647
               else if rtn < - 80000000 then 2147483648 else rtn))
      else rtn)"

text \<open>
  \<^verbatim>\<open>uint64_t COInteger::doOperation( unsigned sz, uint64_t val, CppONOperator op )\<close>:
  the node after the call and the value returned. Reading an uninitialised
  \<^verbatim>\<open>unSigned\<close> is undefined.
\<close>

definition doOperation ::
  "bool option \<Rightarrow> int_data \<Rightarrow> nat \<Rightarrow> 64 word \<Rightarrow> CppONOperator \<Rightarrow>
     fault + (int_data \<times> 64 word)" where
  "doOperation flag d sz val op =
     (case flag of
        None \<Rightarrow> Inl Undefined
      | Some unSigned \<Rightarrow>
          (case doOperation_store unSigned d val op of
             Inl f \<Rightarrow> Inl f
           | Inr (d', rtn) \<Rightarrow> Inr (d', word_of_int (doOperation_return unSigned sz rtn))))"

text \<open>
  The operand of a compound operator is a value \<open>t\<close> of an integer type \<open>T\<close>: its
  signedness and its bytes. \<^verbatim>\<open>(uint64_t) t\<close> extends it by sign or by zero, and the
  result of \<^verbatim>\<open>doOperation\<close> is cut back to \<open>T\<close>.
\<close>

datatype c_int = CInt bool int_data

fun to_uint64 :: "c_int \<Rightarrow> 64 word" where
  "to_uint64 (CInt sg (I8 w)) = (if sg then scast w else ucast w)"
| "to_uint64 (CInt sg (I16 w)) = (if sg then scast w else ucast w)"
| "to_uint64 (CInt sg (I32 w)) = (if sg then scast w else ucast w)"
| "to_uint64 (CInt sg (I64 w)) = w"

fun cast_to :: "c_int \<Rightarrow> 64 word \<Rightarrow> c_int" where
  "cast_to (CInt sg (I8 _)) r = CInt sg (I8 (ucast r))"
| "cast_to (CInt sg (I16 _)) r = CInt sg (I16 (ucast r))"
| "cast_to (CInt sg (I32 _)) r = CInt sg (I32 (ucast r))"
| "cast_to (CInt sg (I64 _)) r = CInt sg (I64 r)"

fun sizeof :: "c_int \<Rightarrow> nat" where
  "sizeof (CInt _ d) = siz d"

text \<open>
  \<^verbatim>\<open>T operator += ( const T t )\<close> and its three siblings on a \<^verbatim>\<open>COInteger\<close>: the node
  after the call and the value returned. On any other node the operators do not exist.
\<close>

fun compound_assign :: "CppONOperator \<Rightarrow> CppON \<Rightarrow> c_int \<Rightarrow> fault + (CppON \<times> c_int)" where
  "compound_assign op (COInteger flag d) t =
     (case doOperation flag d (sizeof t) (to_uint64 t) op of
        Inl f \<Rightarrow> Inl f
      | Inr (d', r) \<Rightarrow> Inr (COInteger flag d', cast_to t r))"
| "compound_assign op _ t = Inl Undefined"

text \<open>The literal \<^verbatim>\<open>5\<close> of type \<^verbatim>\<open>int\<close>, and so on.\<close>

definition c_int_lit :: "int \<Rightarrow> c_int" where
  "c_int_lit n = CInt True (I32 (word_of_int n))"

text \<open>
  What the specification asks of the stored value, in its words: the exact result
  saturated to the range of the node's declared width (in bytes) and signedness.
\<close>

definition spec_saturate :: "bool \<Rightarrow> nat \<Rightarrow> int \<Rightarrow> int" where
  "spec_saturate unSigned bytes r =
     (if unSigned then max 0 (min (2 ^ (8 * bytes) - 1) r)
      else max (- (2 ^ (8 * bytes - 1))) (min (2 ^ (8 * bytes - 1) - 1) r))"

section \<open>\<^verbatim>\<open>CODouble\<close>: assignment with hysteresis\<close>

text \<open>
  Binary64 arithmetic, rounding to nearest, ties to even. \<open>fl\<close> rounds a rational to the
  grid of binary64: 53 significant bits, and steps of \<open>2 ^ - 1074\<close> below the normal range.
  \<open>to_double\<close> is the result of an operation whose exact value is \<open>x\<close>: an infinity when the
  rounded value leaves the range, a zero of the sign of \<open>x\<close> when it vanishes; \<open>neg\<close> is the
  sign of an exact zero.
\<close>

definition pow2 :: "int \<Rightarrow> rat" where
  "pow2 k = (if 0 \<le> k then 2 ^ nat k else 1 / 2 ^ nat (- k))"

definition ilog2 :: "rat \<Rightarrow> int" where
  "ilog2 x = (let (n, d) = quotient_of \<bar>x\<bar>; k = bitlen n - bitlen d
              in if pow2 k \<le> \<bar>x\<bar> then k else k - 1)"

definition round_half_even :: "rat \<Rightarrow> int" where
  "round_half_even q =
     (let f = \<lfloor>q\<rfloor>; r = q - of_int f
      in if r < 1 / 2 then f else if 1 / 2 < r then f + 1 else if even f then f else f + 1)"

definition fl :: "rat \<Rightarrow> rat" where
  "fl x = (if x = 0 then 0
           else let u = pow2 (max (ilog2 x - 52) (- 1074))
                in of_int (round_half_even (x / u)) * u)"

definition to_double :: "bool \<Rightarrow> rat \<Rightarrow> double" where
  "to_double neg x =
     (if x = 0 then (if neg then MinusZero else Finite 0)
      else if fl x = 0 then (if x < 0 then MinusZero else Finite 0)
      else if 1024 \<le> ilog2 (fl x) then Infinity (x < 0)
      else Finite (fl x))"

text \<open>The sign bit, the finite value if there is one, and the test for NaN.\<close>

fun signbit :: "double \<Rightarrow> bool" where
  "signbit (Finite x) = (x < 0)"
| "signbit MinusZero = True"
| "signbit (Infinity s) = s"
| "signbit (NaN s) = s"

fun finite_value :: "double \<Rightarrow> rat option" where
  "finite_value (Finite x) = Some x"
| "finite_value MinusZero = Some 0"
| "finite_value (Infinity s) = None"
| "finite_value (NaN s) = None"

fun isnan :: "double \<Rightarrow> bool" where
  "isnan (NaN s) = True"
| "isnan _ = False"

text \<open>
  Negation flips the sign bit. The other operations hand on an operand that is a NaN, the
  first one if both are; an invalid operation yields the negative NaN of the x86. Such a
  NaN is never stored by the code below, which only compares it.
\<close>

fun d_neg :: "double \<Rightarrow> double" where
  "d_neg (Finite x) = (if x = 0 then MinusZero else Finite (- x))"
| "d_neg MinusZero = Finite 0"
| "d_neg (Infinity s) = Infinity (\<not> s)"
| "d_neg (NaN s) = NaN (\<not> s)"

definition d_mul :: "double \<Rightarrow> double \<Rightarrow> double" where
  "d_mul a b =
     (if isnan a then a else if isnan b then b
      else case (finite_value a, finite_value b) of
             (Some x, Some y) \<Rightarrow> to_double (signbit a \<noteq> signbit b) (x * y)
           | (Some x, None) \<Rightarrow> if x = 0 then NaN True else Infinity (signbit a \<noteq> signbit b)
           | (None, Some y) \<Rightarrow> if y = 0 then NaN True else Infinity (signbit a \<noteq> signbit b)
           | (None, None) \<Rightarrow> Infinity (signbit a \<noteq> signbit b))"

definition d_add :: "double \<Rightarrow> double \<Rightarrow> double" where
  "d_add a b =
     (if isnan a then a else if isnan b then b
      else case (finite_value a, finite_value b) of
             (Some x, Some y) \<Rightarrow> to_double (x = 0 \<and> signbit a \<and> signbit b) (x + y)
           | (Some x, None) \<Rightarrow> b
           | (None, Some y) \<Rightarrow> a
           | (None, None) \<Rightarrow> if signbit a = signbit b then a else NaN True)"

definition d_sub :: "double \<Rightarrow> double \<Rightarrow> double" where
  "d_sub a b = (if isnan a then a else if isnan b then b else d_add a (d_neg b))"

definition d_div :: "double \<Rightarrow> double \<Rightarrow> double" where
  "d_div a b =
     (if isnan a then a else if isnan b then b
      else case (finite_value a, finite_value b) of
             (Some x, Some y) \<Rightarrow>
               if y = 0 then (if x = 0 then NaN True else Infinity (signbit a \<noteq> signbit b))
               else to_double (signbit a \<noteq> signbit b) (x / y)
           | (Some x, None) \<Rightarrow> to_double (signbit a \<noteq> signbit b) 0
           | (None, Some y) \<Rightarrow> Infinity (signbit a \<noteq> signbit b)
           | (None, None) \<Rightarrow> NaN True)"

text \<open>
  The comparisons \<^verbatim>\<open><\<close> and \<^verbatim>\<open>==\<close>: false when an operand is a NaN; the two zeros are
  equal. \<open>d_key\<close> places the values that are no NaN on a line.
\<close>

fun d_key :: "double \<Rightarrow> int \<times> rat" where
  "d_key (Finite x) = (0, x)"
| "d_key MinusZero = (0, 0)"
| "d_key (Infinity s) = (if s then - 1 else 1, 0)"
| "d_key (NaN s) = (0, 0)"

definition d_less :: "double \<Rightarrow> double \<Rightarrow> bool" where
  "d_less a b =
     (\<not> isnan a \<and> \<not> isnan b
      \<and> (fst (d_key a) < fst (d_key b)
           \<or> (fst (d_key a) = fst (d_key b) \<and> snd (d_key a) < snd (d_key b))))"

definition d_eq :: "double \<Rightarrow> double \<Rightarrow> bool" where
  "d_eq a b = (\<not> isnan a \<and> \<not> isnan b \<and> d_key a = d_key b)"

text \<open>
  \<^verbatim>\<open>round\<close> of the C library: to the nearest integer, halves away from zero; a zero
  result keeps the sign of the argument.
\<close>

definition c_round :: "rat \<Rightarrow> rat" where
  "c_round x = (if 0 \<le> x then of_int \<lfloor>x + 1 / 2\<rfloor> else - of_int \<lfloor>- x + 1 / 2\<rfloor>)"

fun d_round :: "double \<Rightarrow> double" where
  "d_round (Finite x) =
     (if c_round x = 0 then (if x < 0 then MinusZero else Finite 0) else Finite (c_round x))"
| "d_round d = d"

text \<open>
  The conversions \<^verbatim>\<open>(double) l\<close> of a 64-bit integer and \<^verbatim>\<open>(int) d\<close>; the second is
  undefined when the truncated value is no \<^verbatim>\<open>int\<close>.
\<close>

definition int_to_double :: "int \<Rightarrow> double" where
  "int_to_double l = to_double False (of_int l)"

definition double_to_int :: "double \<Rightarrow> fault + int" where
  "double_to_int d =
     (case finite_value d of
        None \<Rightarrow> Inl Undefined
      | Some x \<Rightarrow>
          let t = (if 0 \<le> x then \<lfloor>x\<rfloor> else - \<lfloor>- x\<rfloor>)
          in if int_ok t then Inr t else Inl Undefined)"

text \<open>
  \<^verbatim>\<open>double CODouble::operator = (const double& val)\<close> on a node with allocated data:
  the value stored afterwards. \<^verbatim>\<open>pow( 10.0, precision )\<close> is exact for the precisions
  0 to 16.
\<close>

definition CODouble_assign :: "8 word \<Rightarrow> double \<Rightarrow> double \<Rightarrow> double" where
  "CODouble_assign precision old val =
     (if 0 > sint precision \<or> 16 < sint precision then val
      else
        let pow_10 = Finite (10 ^ nat (sint precision));
            n = d_mul pow_10 old;
            d = d_mul pow_10 val;
            t = d_sub n d
        in if d_less (Finite (3 / 4)) t \<or> d_less t (Finite (- (3 / 4)))
           then d_div (d_round d) pow_10 else old)"

text \<open>The operators on nodes; \<^verbatim>\<open>CODouble *operator = ( CODouble &val )\<close> keeps the precision
  of the target and applies the same rule to \<^verbatim>\<open>val.doubleValue()\<close>.\<close>

fun CODouble_assign_double :: "CppON \<Rightarrow> double \<Rightarrow> fault + CppON" where
  "CODouble_assign_double (CODouble p old) val = Inr (CODouble p (CODouble_assign p old val))"
| "CODouble_assign_double _ val = Inl Undefined"

fun CODouble_assign_node :: "CppON \<Rightarrow> CppON \<Rightarrow> fault + CppON" where
  "CODouble_assign_node (CODouble p old) (CODouble q val) =
     Inr (CODouble p (CODouble_assign p old val))"
| "CODouble_assign_node _ _ = Inl Undefined"

text \<open>A \<^verbatim>\<open>double\<close> literal of the source text denotes the nearest binary64 value.\<close>

definition double_lit :: "rat \<Rightarrow> double" where
  "double_lit x = to_double False x"

section \<open>Strings\<close>

text \<open>
  A \<^verbatim>\<open>std::string\<close> is the list of its bytes. Where the source hands a string to a C
  function through \<^verbatim>\<open>c_str()\<close>, the C function sees the bytes before the first NUL.
  \<open>deref s\<close> is \<^verbatim>\<open>*s\<close> for a \<^verbatim>\<open>const char *\<close> whose remaining bytes are \<open>s\<close>.
\<close>

definition NUL :: char where
  "NUL = CHR 0x00"

definition c_str :: "string \<Rightarrow> string" where
  "c_str s = takeWhile (\<lambda>c. c \<noteq> NUL) s"

definition deref :: "string \<Rightarrow> char" where
  "deref s = (case s of [] \<Rightarrow> NUL | c # _ \<Rightarrow> c)"

text \<open>The order of \<^verbatim>\<open>std::string\<close>: lexicographic on the bytes as unsigned numbers.\<close>

fun string_less :: "string \<Rightarrow> string \<Rightarrow> bool" where
  "string_less [] [] = False"
| "string_less [] (y # ys) = True"
| "string_less (x # xs) [] = False"
| "string_less (x # xs) (y # ys) =
     ((of_char x :: nat) < of_char y \<or> (x = y \<and> string_less xs ys))"

definition isspace :: "char \<Rightarrow> bool" where
  "isspace c =
     (c = CHR '' '' \<or> c = CHR 0x09 \<or> c = CHR 0x0A \<or> c = CHR 0x0B \<or> c = CHR 0x0C \<or> c = CHR 0x0D)"

text \<open>The value of a digit in the bases up to 36; 36 for any other byte.\<close>

definition digit_value :: "char \<Rightarrow> nat" where
  "digit_value c =
     (if 48 \<le> (of_char c :: nat) \<and> (of_char c :: nat) \<le> 57 then of_char c - 48
      else if 97 \<le> (of_char c :: nat) \<and> (of_char c :: nat) \<le> 122 then of_char c - 87
      else if 65 \<le> (of_char c :: nat) \<and> (of_char c :: nat) \<le> 90 then of_char c - 55
      else 36)"

definition digits_value :: "nat \<Rightarrow> string \<Rightarrow> int" where
  "digits_value base ds = foldl (\<lambda>a c. a * int base + int (digit_value c)) 0 ds"

text \<open>
  \<^verbatim>\<open>strtol( nptr, &endptr, base )\<close> and \<^verbatim>\<open>strtoll\<close> (both 64 bits wide here) for the
  bases 0, 10 and 16: leading white space, an optional sign, an optional \<^verbatim>\<open>0x\<close> in the
  bases 0 and 16, the digits; the value is clamped to the range of \<^verbatim>\<open>long\<close>. Without
  any digit the result is 0 and \<^verbatim>\<open>endptr\<close> is \<^verbatim>\<open>nptr\<close>.
\<close>

definition strtol :: "string \<Rightarrow> nat \<Rightarrow> int \<times> string" where
  "strtol nptr base =
     (let s1 = dropWhile isspace nptr;
          neg = (deref s1 = CHR ''-'');
          s2 = (if deref s1 = CHR ''-'' \<or> deref s1 = CHR ''+'' then tl s1 else s1);
          hex = ((base = 0 \<or> base = 16) \<and> deref s2 = CHR ''0''
                 \<and> (deref (tl s2) = CHR ''x'' \<or> deref (tl s2) = CHR ''X'')
                 \<and> digit_value (deref (tl (tl s2))) < 16);
          b = (if base = 0 then (if hex then 16 else if deref s2 = CHR ''0'' then 8 else 10)
               else base);
          s3 = (if hex then tl (tl s2) else s2);
          ds = takeWhile (\<lambda>c. digit_value c < b) s3
      in if ds = [] then (0, nptr)
         else let v = digits_value b ds;
                  r = (if neg then - v else v)
              in (max (- (2 ^ 63)) (min (2 ^ 63 - 1) r), dropWhile (\<lambda>c. digit_value c < b) s3))"

text \<open>Decimal digits, as \<^verbatim>\<open>printf\<close> writes them.\<close>

definition digit_char :: "int \<Rightarrow> char" where
  "digit_char n = ''0123456789'' ! nat n"

function decimal :: "int \<Rightarrow> string" where
  "decimal n = (if n < 10 then [digit_char n] else decimal (n div 10) @ [digit_char (n mod 10)])"
  by pat_completeness auto
termination
  by (relation "measure nat") auto

declare decimal.simps [simp del]

text \<open>\<^verbatim>\<open>%d\<close> and \<^verbatim>\<open>%ld\<close>.\<close>

definition printf_d :: "int \<Rightarrow> string" where
  "printf_d i = (if i < 0 then CHR ''-'' # decimal (- i) else decimal i)"

text \<open>\<^verbatim>\<open>%c\<close> into a buffer that is then read as a C string: the byte 0 ends it at once.\<close>

definition printf_c :: "8 word \<Rightarrow> string" where
  "printf_c w = c_str [char_of (unat w)]"

text \<open>
  \<^verbatim>\<open>%.<prec>lf\<close>: the sign, then the exact magnitude rounded to \<open>prec\<close> decimals, ties to
  even, in fixed notation; \<^verbatim>\<open>inf\<close> and \<^verbatim>\<open>nan\<close> for the values that are no numbers.
\<close>

definition printf_fixed :: "nat \<Rightarrow> rat \<Rightarrow> string" where
  "printf_fixed prec x =
     (let q = round_half_even (\<bar>x\<bar> * 10 ^ prec);
          ip = q div 10 ^ prec;
          fp = decimal (q mod 10 ^ prec)
      in decimal ip
         @ (if prec = 0 then '''' else ''.'' @ replicate (prec - length fp) CHR ''0'' @ fp))"

definition printf_f :: "nat \<Rightarrow> double \<Rightarrow> string" where
  "printf_f prec d =
     (if signbit d then ''-'' else '''')
     @ (case d of
          Finite x \<Rightarrow> printf_fixed prec x
        | MinusZero \<Rightarrow> printf_fixed prec 0
        | Infinity _ \<Rightarrow> ''inf''
        | NaN _ \<Rightarrow> ''nan'')"

section \<open>\<^verbatim>\<open>std::map\<close> and the type predicates\<close>

text \<open>
  \<^verbatim>\<open>find\<close>, \<^verbatim>\<open>erase\<close> and \<^verbatim>\<open>insert\<close> on the entries in ascending key order;
  \<^verbatim>\<open>insert\<close> keeps an entry that is already there.
\<close>

definition map_find :: "string \<Rightarrow> (string \<times> ptr) list \<Rightarrow> ptr option" where
  "map_find key m = map_of m key"

definition map_erase :: "string \<Rightarrow> (string \<times> ptr) list \<Rightarrow> (string \<times> ptr) list" where
  "map_erase key m = filter (\<lambda>e. fst e \<noteq> key) m"

fun map_insert :: "string \<Rightarrow> ptr \<Rightarrow> (string \<times> ptr) list \<Rightarrow> (string \<times> ptr) list" where
  "map_insert key n [] = [(key, n)]"
| "map_insert key n ((k, p) # m) =
     (if key = k then (k, p) # m
      else if string_less key k then (key, n) # (k, p) # m
      else (k, p) # map_insert key n m)"

fun isMap :: "ptr \<Rightarrow> bool" where
  "isMap (Ptr _ (COMap _ _)) = True"
| "isMap _ = False"

fun isArray :: "ptr \<Rightarrow> bool" where
  "isArray (Ptr _ (COArray _)) = True"
| "isArray _ = False"

fun isString :: "ptr \<Rightarrow> bool" where
  "isString (Ptr _ (COString _)) = True"
| "isString _ = False"

fun isObj :: "ptr \<Rightarrow> bool" where
  "isObj NULL = False"
| "isObj (Ptr _ _) = True"

text \<open>What the casts \<^verbatim>\<open>(COMap *) p\<close> and \<^verbatim>\<open>(COArray *) p\<close> give access to, and the address.\<close>

fun map_data :: "ptr \<Rightarrow> (string \<times> ptr) list" where
  "map_data (Ptr _ (COMap m _)) = m"
| "map_data _ = []"

fun map_order :: "ptr \<Rightarrow> string list" where
  "map_order (Ptr _ (COMap _ ord)) = ord"
| "map_order _ = []"

fun array_data :: "ptr \<Rightarrow> ptr list" where
  "array_data (Ptr _ (COArray v)) = v"
| "array_data _ = []"

fun address :: "ptr \<Rightarrow> addr" where
  "address (Ptr a _) = a"
| "address NULL = 0"

section \<open>\<^verbatim>\<open>COMap::findElement\<close>\<close>

text \<open>
  \<^verbatim>\<open>splitPath\<close>: the text before the first slash, and what follows the slash.
\<close>

definition splitPath :: "string \<Rightarrow> string \<times> string" where
  "splitPath str =
     (let val = takeWhile (\<lambda>c. c \<noteq> NUL \<and> c \<noteq> CHR ''/'') str;
          remainder = dropWhile (\<lambda>c. c \<noteq> NUL \<and> c \<noteq> CHR ''/'') str
      in (val, if deref remainder = CHR ''/'' then tl remainder else remainder))"

text \<open>
  The index after a colon: the name before the colon, \<^verbatim>\<open>arrayIndex\<close> (an \<^verbatim>\<open>int\<close>, -1
  without a colon) and \<^verbatim>\<open>more\<close>, the text after the number.
\<close>

definition split_index :: "string \<Rightarrow> string \<times> 32 word \<times> string" where
  "split_index s =
     (if CHR '':'' \<in> set s then
        let idx = length (takeWhile (\<lambda>c. c \<noteq> CHR '':'') s);
            (v, r) = strtol (drop (idx + 1) s) 10
        in (take idx s, word_of_int v, c_str r)
      else (s, - 1, []))"

text \<open>The loop over the entries: the first one whose key equals \<open>s\<close> under \<^verbatim>\<open>strcmp\<close>.\<close>

fun first_match :: "(string \<times> ptr) list \<Rightarrow> string \<Rightarrow> ptr" where
  "first_match [] s = NULL"
| "first_match ((k, p) # m) s = (if c_str k = c_str s then p else first_match m s)"

text \<open>Children are smaller than their parents; the recursions below terminate by that.\<close>

lemma first_match_size:
  "first_match m s \<noteq> NULL \<Longrightarrow> size (first_match m s) < size_list (size_prod (\<lambda>x. 0) size) m"
  by (induction m) (auto split: if_splits)

lemma map_data_size: "isMap p \<Longrightarrow> size_list (size_prod (\<lambda>x. 0) size) (map_data p) < size p"
  by (induction p rule: isMap.induct) auto

lemma isMap_not_NULL [simp]: "isMap p \<Longrightarrow> p \<noteq> NULL"
  by auto

lemma isArray_not_NULL [simp]: "isArray p \<Longrightarrow> p \<noteq> NULL"
  by auto

lemma nth_size: "n < length v \<Longrightarrow> size (v ! n) < size_list size v"
proof (induction v arbitrary: n)
  case Nil
  then show ?case by simp
next
  case (Cons a v)
  show ?case
  proof (cases n)
    case 0
    then show ?thesis by simp
  next
    case (Suc k)
    with Cons.prems have "k < length v" by simp
    from Cons.IH[OF this] show ?thesis using Suc by simp
  qed
qed

lemma COArray_at_size:
  "isArray p \<Longrightarrow> COArray_at (Some (array_data p)) i \<noteq> NULL \<Longrightarrow>
   size (COArray_at (Some (array_data p)) i) < size p"
proof (induction p rule: isArray.induct)
  case (1 a v)
  then have "unat i < length v" by (auto simp: COArray_at_def split: if_splits)
  then show ?case using nth_size[of "unat i" v] by (simp add: COArray_at_def)
qed auto

text \<open>
  \<^verbatim>\<open>CppON *COMap::findElement( const char *str )\<close> on the entries of the map, and the
  \<^verbatim>\<open>while\<close> loop that walks into arrays by index.
\<close>

function COMap_findElement :: "(string \<times> ptr) list \<Rightarrow> string \<Rightarrow> ptr"
  and index_walk :: "ptr \<Rightarrow> 32 word \<Rightarrow> string \<Rightarrow> string \<Rightarrow> ptr"
where
  "COMap_findElement m str =
     (case splitPath str of (s0, str') \<Rightarrow>
      case split_index s0 of (s, arrayIndex, more) \<Rightarrow>
        let rtn = first_match m s
        in if isMap rtn \<and> deref str' \<noteq> NUL then COMap_findElement (map_data rtn) str'
           else if isArray rtn \<and> 0 \<le> sint arrayIndex then index_walk rtn arrayIndex more str'
           else rtn)"
| "index_walk rtn arrayIndex more str =
     (if isArray rtn \<and> 0 \<le> sint arrayIndex then
        let rtn' = COArray_at (Some (array_data rtn)) arrayIndex
        in if isMap rtn' \<and> deref str \<noteq> NUL then COMap_findElement (map_data rtn') str
           else if \<not> isArray rtn' \<or> deref more \<noteq> CHR '':'' then rtn'
           else case strtol (tl more) 10 of (v, r) \<Rightarrow> index_walk rtn' (word_of_int v) (c_str r) str
      else rtn)"
  by pat_completeness auto

termination
  apply (relation "measure (\<lambda>x. case x of Inl (m, _) \<Rightarrow> size_list (size_prod (\<lambda>x. 0) size) m
                                  | Inr (rtn, _) \<Rightarrow> size rtn)")
      apply simp
  subgoal for m str s0 str' s x arrayIndex more rtn
    using first_match_size[of m s] map_data_size[of "first_match m s"] by auto
  subgoal for m str s0 str' s x arrayIndex more rtn
    using first_match_size[of m s] by auto
  subgoal for rtn arrayIndex more str rtn'
    using COArray_at_size[of rtn arrayIndex] map_data_size[of rtn'] by auto
  subgoal for rtn arrayIndex more str rtn' v r
    using COArray_at_size[of rtn arrayIndex] by auto
  done

declare COMap_findElement.simps [simp del] index_walk.simps [simp del]

section \<open>\<^verbatim>\<open>COMap::append\<close> and \<^verbatim>\<open>COMap::removeVal\<close>\<close>

text \<open>
  A write through a pointer found by \<^verbatim>\<open>findElement\<close> changes the node at that address
  inside the tree: \<open>store_ptr a n\<close> puts \<open>n\<close> where the address is \<open>a\<close>.
\<close>

fun store_ptr :: "addr \<Rightarrow> CppON \<Rightarrow> ptr \<Rightarrow> ptr"
  and store_node :: "addr \<Rightarrow> CppON \<Rightarrow> CppON \<Rightarrow> CppON"
where
  "store_ptr a n NULL = NULL"
| "store_ptr a n (Ptr b x) = (if a = b then Ptr b n else Ptr b (store_node a n x))"
| "store_node a n (COMap m ord) = COMap (map (\<lambda>e. (fst e, store_ptr a n (snd e))) m) ord"
| "store_node a n (COArray v) = COArray (map (store_ptr a n) v)"
| "store_node a n (COInteger f d) = COInteger f d"
| "store_node a n (CODouble p d) = CODouble p d"
| "store_node a n (COString s) = COString s"
| "store_node a n CONull = CONull"
| "store_node a n (COBoolean b) = COBoolean b"

definition store_entries :: "addr \<Rightarrow> CppON \<Rightarrow> (string \<times> ptr) list \<Rightarrow> (string \<times> ptr) list" where
  "store_entries a n m = map (\<lambda>e. (fst e, store_ptr a n (snd e))) m"

text \<open>
  The branch of \<^verbatim>\<open>append\<close> for a key without a slash: an entry of that key is erased from
  the map and from \<^verbatim>\<open>order\<close>, then the new entry is inserted and the key pushed at the end.
\<close>

definition append_direct ::
  "(string \<times> ptr) list \<Rightarrow> string list \<Rightarrow> string \<Rightarrow> ptr \<Rightarrow> (string \<times> ptr) list \<times> string list" where
  "append_direct m ord key n =
     (case map_find key m of
        None \<Rightarrow> (map_insert key n m, ord @ [key])
      | Some _ \<Rightarrow> (map_insert key n (map_erase key m), remove1 key ord @ [key]))"

text \<open>
  \<^verbatim>\<open>int COMap::append( std::string key, CppON *n )\<close> on a map with entries \<open>m\<close> and key
  vector \<open>ord\<close>; \<open>h\<close> is the next free address, where \<^verbatim>\<open>new COMap()\<close> puts a map. The
  result is the next free address, the returned \<^verbatim>\<open>int\<close> and the map after the call. The
  inner call \<^verbatim>\<open>append( s, mp = new COMap() )\<close> takes the first branch, \<open>s\<close> holding no slash.
\<close>

function COMap_append ::
  "addr \<Rightarrow> (string \<times> ptr) list \<Rightarrow> string list \<Rightarrow> string \<Rightarrow> ptr \<Rightarrow>
     addr \<times> int \<times> (string \<times> ptr) list \<times> string list" where
  "COMap_append h m ord key n =
     (if CHR ''/'' \<notin> set key then
        (case append_direct m ord key n of (m', ord') \<Rightarrow> (h, 0, m', ord'))
      else
        let pos = length (takeWhile (\<lambda>c. c \<noteq> CHR ''/'') key);
            s = take pos key;
            key' = drop (pos + 1) key;
            found = COMap_findElement m (c_str s);
            mp = (if found = NULL then Ptr h (COMap [] []) else found);
            h1 = (if found = NULL then Suc h else h);
            (m1, ord1) = (if found = NULL then append_direct m ord s mp else (m, ord))
        in if isMap mp then
             (case COMap_append h1 (map_data mp) (map_order mp) key' n of
                (h2, rtn, cm, co) \<Rightarrow> (h2, rtn, store_entries (address mp) (COMap cm co) m1, ord1))
           else if isArray mp then
             (h1, 0, store_entries (address mp) (COArray (array_data mp @ [n])) m1, ord1)
           else (h1, - 1, m1, ord1))"
  by pat_completeness auto
termination
  by (relation "measure (\<lambda>(h, m, ord, key, n). length key)")
    (auto dest: length_pos_if_in_set)

declare COMap_append.simps [simp del]

text \<open>\<^verbatim>\<open>void COMap::removeVal( string s )\<close>.\<close>

definition COMap_removeVal ::
  "(string \<times> ptr) list \<Rightarrow> string list \<Rightarrow> string \<Rightarrow> (string \<times> ptr) list \<times> string list" where
  "COMap_removeVal m ord s =
     (case map_find s m of
        None \<Rightarrow> (m, ord)
      | Some _ \<Rightarrow> (map_erase s m, remove1 s ord))"

text \<open>\<^verbatim>\<open>getKeys()\<close> returns the key vector.\<close>

definition COMap_getKeys :: "(string \<times> ptr) list \<Rightarrow> string list \<Rightarrow> string list" where
  "COMap_getKeys m ord = ord"

section \<open>Paths of plain keys\<close>

text \<open>
  A path of plain keys: segments separated by slashes, without a colon (the index syntax of
  \<^verbatim>\<open>findElement\<close>) and without a NUL, the last segment not empty.
\<close>

definition plain_path :: "string \<Rightarrow> bool" where
  "plain_path key = (key \<noteq> [] \<and> last key \<noteq> CHR ''/'' \<and> NUL \<notin> set key \<and> CHR '':'' \<notin> set key)"

text \<open>
  \<open>path_open m key\<close>: every segment of \<open>key\<close> before the last one, looked up from the map
  \<open>m\<close> downwards, is absent or names a map.
\<close>

function path_open :: "(string \<times> ptr) list \<Rightarrow> string \<Rightarrow> bool" where
  "path_open m key =
     (if CHR ''/'' \<notin> set key then True
      else
        let pos = length (takeWhile (\<lambda>c. c \<noteq> CHR ''/'') key);
            s = take pos key;
            key' = drop (pos + 1) key;
            found = COMap_findElement m (c_str s)
        in if found = NULL then True
           else if isMap found then path_open (map_data found) key'
           else False)"
  by pat_completeness auto
termination
  by (relation "measure (\<lambda>(m, key). length key)") (auto dest: length_pos_if_in_set)

declare path_open.simps [simp del]


text \<open>
  \<open>dangling m path\<close>: the lookup of \<open>path\<close> from the map \<open>m\<close> downwards, through nested maps,
  arrives at a map that has no entry for the next segment.
\<close>

lemma NUL_neq_slash: "NUL \<noteq> CHR ''/''"
  by (simp add: NUL_def)

lemma splitPath_shorter:
  assumes "splitPath path = (s, rest)" "deref rest \<noteq> NUL"
  shows "length rest < length path"
proof -
  define r where "r = dropWhile (\<lambda>c. c \<noteq> NUL \<and> c \<noteq> CHR ''/'') path"
  have rest: "rest = (if deref r = CHR ''/'' then tl r else r)"
    using assms(1) by (auto simp: splitPath_def Let_def r_def)
  have le: "length r \<le> length path"
    unfolding r_def by (rule length_dropWhile_le)
  show ?thesis
  proof (cases r)
    case Nil
    then show ?thesis using rest assms(2) by (simp add: deref_def NUL_neq_slash)
  next
    case (Cons c r')
    then have "hd r = c" "r \<noteq> []" by simp_all
    with hd_dropWhile[of "\<lambda>c. c \<noteq> NUL \<and> c \<noteq> CHR ''/''" path]
    have c: "c = NUL \<or> c = CHR ''/''" unfolding r_def by blast
    show ?thesis
    proof (cases "c = CHR ''/''")
      case True
      then have "rest = r'" using rest Cons by (simp add: deref_def)
      then show ?thesis using le Cons by simp
    next
      case False
      with c have "c = NUL" by simp
      then have "rest = r" using rest Cons False by (simp add: deref_def NUL_neq_slash)
      then show ?thesis using assms(2) Cons \<open>c = NUL\<close> by (simp add: deref_def)
    qed
  qed
qed

function dangling :: "(string \<times> ptr) list \<Rightarrow> string \<Rightarrow> bool" where
  "dangling m path =
     (case splitPath path of (s, rest) \<Rightarrow>
        let found = first_match m s
        in if found = NULL then True
           else if isMap found \<and> deref rest \<noteq> NUL then dangling (map_data found) rest
           else False)"
  by pat_completeness auto
termination
  apply (relation "measure (\<lambda>(m, path). length path)")
   apply simp
  apply simp
  apply (blast intro: splitPath_shorter[OF sym])
  done

declare dangling.simps [simp del]


section \<open>Serializers\<close>

text \<open>\<^verbatim>\<open>CppON::toNetString( const char *str, char styp )\<close>: \<^verbatim>\<open>"%d:%s%c"\<close>.\<close>

definition CppON_toNetString :: "string \<Rightarrow> char \<Rightarrow> string" where
  "CppON_toNetString str styp = decimal (int (length str)) @ '':'' @ str @ [styp]"

text \<open>
  The digits of a \<^verbatim>\<open>COInteger\<close>: \<^verbatim>\<open>%c\<close> for one byte, \<^verbatim>\<open>%d\<close> for two and four,
  \<^verbatim>\<open>%ld\<close> for eight.
\<close>

fun COInteger_digits :: "int_data \<Rightarrow> string" where
  "COInteger_digits (I8 w) = printf_c w"
| "COInteger_digits (I16 w) = printf_d (sint w)"
| "COInteger_digits (I32 w) = printf_d (sint w)"
| "COInteger_digits (I64 w) = printf_d (sint w)"

lemma map_find_size:
  "map_find k m = Some (Ptr a n) \<Longrightarrow> size n < size_list (size_prod (\<lambda>x. 0) size) m"
  by (induction m) (auto simp: map_find_def split: if_splits)

text \<open>
  \<^verbatim>\<open>toNetString\<close> of each class. The loop of \<^verbatim>\<open>COMap::toNetString\<close> runs over
  \<^verbatim>\<open>order\<close> and dereferences what \<^verbatim>\<open>find\<close> returns; the loop of
  \<^verbatim>\<open>COArray::toNetString\<close> drops the elements of type \<^verbatim>\<open>CONull\<close>. Both dereference
  the child pointer.
\<close>

function toNetString :: "CppON \<Rightarrow> fault + string"
  and COMap_toNetString_loop :: "(string \<times> ptr) list \<Rightarrow> string list \<Rightarrow> fault + string"
  and COArray_toNetString_loop :: "ptr list \<Rightarrow> fault + string"
where
  "toNetString (COInteger f d) = Inr (CppON_toNetString (COInteger_digits d) CHR ''#'')"
| "toNetString (CODouble p v) = Inr (CppON_toNetString (take 46 (printf_f 10 v)) CHR ''^'')"
| "toNetString (COString s) = Inr (CppON_toNetString (c_str s) CHR '','')"
| "toNetString (COBoolean b) = Inr (CppON_toNetString (if b then ''true'' else ''false'') CHR ''!'')"
| "toNetString CONull = Inr ''0:~''"
| "toNetString (COMap m ord) =
     (case COMap_toNetString_loop m ord of
        Inl f \<Rightarrow> Inl f
      | Inr rt \<Rightarrow> Inr (CppON_toNetString (c_str rt) CHR ''}''))"
| "toNetString (COArray v) =
     (case COArray_toNetString_loop v of
        Inl f \<Rightarrow> Inl f
      | Inr rt \<Rightarrow> Inr (CppON_toNetString (c_str rt) CHR '']''))"
| "COMap_toNetString_loop m [] = Inr []"
| "COMap_toNetString_loop m (k # ks) =
     (case map_find k m of
        None \<Rightarrow> Inl Undefined
      | Some NULL \<Rightarrow> Inl Undefined
      | Some (Ptr a n) \<Rightarrow>
          (case toNetString n of
             Inl f \<Rightarrow> Inl f
           | Inr sptr \<Rightarrow>
               (case COMap_toNetString_loop m ks of
                  Inl f \<Rightarrow> Inl f
                | Inr rt \<Rightarrow> Inr (CppON_toNetString (c_str k) CHR '','' @ sptr @ rt))))"
| "COArray_toNetString_loop [] = Inr []"
| "COArray_toNetString_loop (NULL # v) = Inl Undefined"
| "COArray_toNetString_loop (Ptr a n # v) =
     (case (case n of CONull \<Rightarrow> Inr [] | _ \<Rightarrow> toNetString n) of
        Inl f \<Rightarrow> Inl f
      | Inr sptr \<Rightarrow>
          (case COArray_toNetString_loop v of
             Inl f \<Rightarrow> Inl f
           | Inr rt \<Rightarrow> Inr (sptr @ rt)))"
  by pat_completeness auto

termination
  apply (relation "measures [\<lambda>x. case x of Inl n \<Rightarrow> size n
                                  | Inr (Inl (m, ks)) \<Rightarrow> size_list (size_prod (\<lambda>x. 0) size) m
                                  | Inr (Inr v) \<Rightarrow> size_list size v,
                             \<lambda>x. case x of Inl n \<Rightarrow> 0
                                  | Inr (Inl (m, ks)) \<Rightarrow> Suc (length ks)
                                  | Inr (Inr v) \<Rightarrow> Suc (length v)]")
  apply (auto dest: map_find_size)
  done

declare toNetString.simps [simp del]

text \<open>
  \<^verbatim>\<open>COString::toJsonString\<close> escapes twelve bytes in its own way and copies the others.
\<close>

definition json_escape :: "char \<Rightarrow> string" where
  "json_escape ch =
     (if ch = CHR 0x22 then ''%22''
      else if ch = CHR ''{'' then ''%7B''
      else if ch = CHR ''}'' then ''%7D''
      else if ch = CHR ''<'' then ''%3C''
      else if ch = CHR ''>'' then ''%3E''
      else if ch = CHR 0x5C then ''%5C''
      else if ch = CHR 0x27 then ''%60''
      else if ch = CHR ''^'' then ''%5E''
      else if ch = CHR ''&'' then ''%26''
      else if ch = CHR 0x0D then ''%0D''
      else if ch = CHR 0x0A \<or> ch = CHR 0x07 then ''%0A''
      else if ch = CHR 0x09 then '' ''
      else [ch])"

definition COString_toJsonString :: "string \<Rightarrow> string" where
  "COString_toJsonString s = [CHR 0x22] @ concat (map json_escape s) @ [CHR 0x22]"

text \<open>
  \<^verbatim>\<open>CODouble::toJsonString\<close>: ten decimals when the precision is outside 0 .. 16, else
  \<^verbatim>\<open>precision\<close> decimals; \<^verbatim>\<open>snprintf\<close> cuts the text at 126 and at 22 bytes.
\<close>

definition CODouble_toJsonString :: "8 word \<Rightarrow> double \<Rightarrow> string" where
  "CODouble_toJsonString precision v =
     (if 0 > sint precision \<or> 16 < sint precision then take 126 (printf_f 10 v)
      else take 22 (printf_f (nat (sint precision)) v))"

text \<open>
  \<^verbatim>\<open>toCompactJsonString\<close> of the containers, with \<^verbatim>\<open>toJsonString\<close> of the scalars. The
  flag \<^verbatim>\<open>first\<close> suppresses the comma before the first entry. An element of type
  \<^verbatim>\<open>CONull\<close> of an array is dropped after its comma is written.
\<close>

function toCompactJsonString :: "CppON \<Rightarrow> fault + string"
  and COMap_compact_loop :: "(string \<times> ptr) list \<Rightarrow> bool \<Rightarrow> string list \<Rightarrow> fault + string"
  and COArray_compact_loop :: "bool \<Rightarrow> ptr list \<Rightarrow> fault + string"
where
  "toCompactJsonString (COInteger f d) = Inr (COInteger_digits d)"
| "toCompactJsonString (CODouble p v) = Inr (CODouble_toJsonString p v)"
| "toCompactJsonString (COString s) = Inr (COString_toJsonString s)"
| "toCompactJsonString (COBoolean b) = Inr (if b then ''true'' else ''false'')"
| "toCompactJsonString CONull = Inr ''null''"
| "toCompactJsonString (COMap m ord) =
     (case COMap_compact_loop m True ord of
        Inl f \<Rightarrow> Inl f
      | Inr body \<Rightarrow> Inr (''{'' @ body @ ''}''))"
| "toCompactJsonString (COArray v) =
     (case COArray_compact_loop True v of
        Inl f \<Rightarrow> Inl f
      | Inr body \<Rightarrow> Inr (''['' @ body @ '']''))"
| "COMap_compact_loop m first [] = Inr []"
| "COMap_compact_loop m first (k # ks) =
     (case map_find k m of
        None \<Rightarrow> Inl Undefined
      | Some NULL \<Rightarrow> Inl Undefined
      | Some (Ptr a n) \<Rightarrow>
          (case toCompactJsonString n of
             Inl f \<Rightarrow> Inl f
           | Inr sptr \<Rightarrow>
               (case COMap_compact_loop m False ks of
                  Inl f \<Rightarrow> Inl f
                | Inr rest \<Rightarrow>
                    Inr ((if first then [] else '','') @ [CHR 0x22] @ c_str k @ [CHR 0x22, CHR '':'']
                         @ sptr @ rest))))"
| "COArray_compact_loop first [] = Inr []"
| "COArray_compact_loop first (NULL # v) = Inl Undefined"
| "COArray_compact_loop first (Ptr a n # v) =
     (case (case n of CONull \<Rightarrow> Inr [] | _ \<Rightarrow> toCompactJsonString n) of
        Inl f \<Rightarrow> Inl f
      | Inr sptr \<Rightarrow>
          (case COArray_compact_loop False v of
             Inl f \<Rightarrow> Inl f
           | Inr rest \<Rightarrow> Inr ((if first then [] else '','') @ sptr @ rest)))"
  by pat_completeness auto
termination
  apply (relation "measures [\<lambda>x. case x of Inl n \<Rightarrow> size n
                                  | Inr (Inl (m, first, ks)) \<Rightarrow> size_list (size_prod (\<lambda>x. 0) size) m
                                  | Inr (Inr (first, v)) \<Rightarrow> size_list size v,
                             \<lambda>x. case x of Inl n \<Rightarrow> 0
                                  | Inr (Inl (m, first, ks)) \<Rightarrow> Suc (length ks)
                                  | Inr (Inr (first, v)) \<Rightarrow> Suc (length v)]")
  apply (auto dest: map_find_size)
  done

declare toCompactJsonString.simps [simp del]

text \<open>
  \<^verbatim>\<open>toJsonString( std::string &indent )\<close> of the containers: two more blanks per level,
  entries separated by a comma and a line feed, a nested container on a line of its own.
\<close>

function toJsonString :: "string \<Rightarrow> CppON \<Rightarrow> fault + string"
  and COMap_toJsonString_loop ::
    "string \<Rightarrow> (string \<times> ptr) list \<Rightarrow> bool \<Rightarrow> string list \<Rightarrow> fault + string"
  and COArray_toJsonString_loop :: "string \<Rightarrow> bool \<Rightarrow> ptr list \<Rightarrow> fault + string"
where
  "toJsonString indent (COInteger f d) = Inr (COInteger_digits d)"
| "toJsonString indent (CODouble p v) = Inr (CODouble_toJsonString p v)"
| "toJsonString indent (COString s) = Inr (COString_toJsonString s)"
| "toJsonString indent (COBoolean b) = Inr (if b then ''true'' else ''false'')"
| "toJsonString indent CONull = Inr ''null''"
| "toJsonString indent (COMap m ord) =
     (case COMap_toJsonString_loop (indent @ ''  '') m True ord of
        Inl f \<Rightarrow> Inl f
      | Inr body \<Rightarrow> Inr (c_str indent @ [CHR ''{'', CHR 0x0A] @ body @ [CHR 0x0A] @ c_str indent @ ''}''))"
| "toJsonString indent (COArray v) =
     (case COArray_toJsonString_loop (indent @ ''  '') True v of
        Inl f \<Rightarrow> Inl f
      | Inr body \<Rightarrow> Inr (c_str indent @ [CHR ''['', CHR 0x0A] @ body @ [CHR 0x0A] @ c_str indent @ '']''))"
| "COMap_toJsonString_loop newIndent m first [] = Inr []"
| "COMap_toJsonString_loop newIndent m first (k # ks) =
     (case map_find k m of
        None \<Rightarrow> Inl Undefined
      | Some NULL \<Rightarrow> Inl Undefined
      | Some (Ptr a n) \<Rightarrow>
          (case toJsonString newIndent n of
             Inl f \<Rightarrow> Inl f
           | Inr sptr \<Rightarrow>
               (case COMap_toJsonString_loop newIndent m False ks of
                  Inl f \<Rightarrow> Inl f
                | Inr rest \<Rightarrow>
                    Inr ((if first then [] else [CHR '','', CHR 0x0A]) @ c_str newIndent
                         @ [CHR 0x22] @ c_str k @ [CHR 0x22, CHR '':'', CHR '' '']
                         @ (if isMap (Ptr a n) \<or> isArray (Ptr a n) then [CHR 0x0A] else [])
                         @ sptr @ rest))))"
| "COArray_toJsonString_loop newIndent first [] = Inr []"
| "COArray_toJsonString_loop newIndent first (NULL # v) = Inl Undefined"
| "COArray_toJsonString_loop newIndent first (Ptr a n # v) =
     (case (case n of CONull \<Rightarrow> Inr [] | _ \<Rightarrow> toJsonString newIndent n) of
        Inl f \<Rightarrow> Inl f
      | Inr sptr \<Rightarrow>
          (case COArray_toJsonString_loop newIndent False v of
             Inl f \<Rightarrow> Inl f
           | Inr rest \<Rightarrow>
               Inr ((if first then [] else [CHR '','', CHR 0x0A]) @ c_str newIndent @ sptr @ rest)))"
  by pat_completeness auto
termination
  apply (relation "measures [\<lambda>x. case x of Inl (i, n) \<Rightarrow> size n
                                  | Inr (Inl (i, m, first, ks)) \<Rightarrow> size_list (size_prod (\<lambda>x. 0) size) m
                                  | Inr (Inr (i, first, v)) \<Rightarrow> size_list size v,
                             \<lambda>x. case x of Inl n \<Rightarrow> 0
                                  | Inr (Inl (i, m, first, ks)) \<Rightarrow> Suc (length ks)
                                  | Inr (Inr (i, first, v)) \<Rightarrow> Suc (length v)]")
  apply (auto dest: map_find_size)
  done

declare toJsonString.simps [simp del]


section \<open>Insertions and removals on a map\<close>

text \<open>
  A client of a map inserts with \<^verbatim>\<open>append\<close> and removes with \<^verbatim>\<open>removeVal\<close>; \<open>run_map_ops\<close>
  runs a list of such calls, threading the next free address.
\<close>

datatype map_op = Append string ptr | Remove string

fun apply_map_op ::
  "addr \<times> (string \<times> ptr) list \<times> string list \<Rightarrow> map_op \<Rightarrow> addr \<times> (string \<times> ptr) list \<times> string list" where
  "apply_map_op (h, m, ord) (Append key n) =
     (case COMap_append h m ord key n of (h', rtn, m', ord') \<Rightarrow> (h', m', ord'))"
| "apply_map_op (h, m, ord) (Remove key) =
     (case COMap_removeVal m ord key of (m', ord') \<Rightarrow> (h, m', ord'))"

definition run_map_ops ::
  "addr \<times> (string \<times> ptr) list \<times> string list \<Rightarrow> map_op list \<Rightarrow> addr \<times> (string \<times> ptr) list \<times> string list" where
  "run_map_ops st ops = foldl apply_map_op st ops"

text \<open>
  What the specification says of the key order, in its words: insertion order, a key that
  is inserted again moves to the end, a key that is removed disappears.
\<close>

fun spec_order_step :: "string list \<Rightarrow> map_op \<Rightarrow> string list" where
  "spec_order_step keys (Append key n) = filter (\<lambda>k. k \<noteq> key) keys @ [key]"
| "spec_order_step keys (Remove key) = filter (\<lambda>k. k \<noteq> key) keys"

definition spec_order :: "string list \<Rightarrow> map_op list \<Rightarrow> string list" where
  "spec_order keys ops = foldl spec_order_step keys ops"

text \<open>An insertion under the key itself: the key holds no slash.\<close>

fun direct_op :: "map_op \<Rightarrow> bool" where
  "direct_op (Append key n) = (CHR ''/'' \<notin> set key)"
| "direct_op (Remove key) = True"

text \<open>The key vector holds exactly the keys of the map, each once.\<close>

definition map_invariant :: "(string \<times> ptr) list \<Rightarrow> string list \<Rightarrow> bool" where
  "map_invariant m ord = (distinct ord \<and> set ord = fst ` set m \<and> distinct (map fst m))"

text \<open>
  What one entry contributes to the compact JSON text, and the text of a list of entries.
\<close>

definition map_entry_json :: "(string \<times> ptr) list \<Rightarrow> string \<Rightarrow> string option" where
  "map_entry_json m k =
     (case map_find k m of
        Some (Ptr a n) \<Rightarrow>
          (case toCompactJsonString n of
             Inr s \<Rightarrow> Some ([CHR 0x22] @ c_str k @ [CHR 0x22, CHR '':''] @ s)
           | Inl f \<Rightarrow> None)
      | _ \<Rightarrow> None)"

fun join_commas :: "string list \<Rightarrow> string" where
  "join_commas [] = []"
| "join_commas [p] = p"
| "join_commas (p # q # ps) = p @ '','' @ join_commas (q # ps)"


section \<open>The shape of the serialized text\<close>

text \<open>The type tags of the net-string format, as the specification lists them.\<close>

fun spec_tag :: "CppON \<Rightarrow> char" where
  "spec_tag (COString s) = CHR '',''"
| "spec_tag (COInteger f d) = CHR ''#''"
| "spec_tag (CODouble p v) = CHR ''^''"
| "spec_tag (COBoolean b) = CHR ''!''"
| "spec_tag CONull = CHR ''~''"
| "spec_tag (COMap m ord) = CHR ''}''"
| "spec_tag (COArray v) = CHR '']''"

text \<open>What one entry of a map and one element of an array contribute to a net-string payload.\<close>

definition map_entry_net :: "(string \<times> ptr) list \<Rightarrow> string \<Rightarrow> string option" where
  "map_entry_net m k =
     (case map_find k m of
        Some (Ptr a n) \<Rightarrow>
          (case toNetString n of
             Inr s \<Rightarrow> Some (CppON_toNetString (c_str k) CHR '','' @ s)
           | Inl f \<Rightarrow> None)
      | _ \<Rightarrow> None)"

definition array_element_net :: "ptr \<Rightarrow> string option" where
  "array_element_net p =
     (case p of
        NULL \<Rightarrow> None
      | Ptr a CONull \<Rightarrow> Some []
      | Ptr a n \<Rightarrow> (case toNetString n of Inr s \<Rightarrow> Some s | Inl f \<Rightarrow> None))"

text \<open>
  \<^verbatim>\<open>getValues()\<close> walks the \<^verbatim>\<open>std::map\<close> from \<^verbatim>\<open>begin()\<close> to \<^verbatim>\<open>end()\<close>.
\<close>

definition COMap_getValues :: "(string \<times> ptr) list \<Rightarrow> ptr list" where
  "COMap_getValues m = map snd m"


text \<open>
  A tree that the serializers can walk: every key of a key vector is in its map, and no
  child pointer is null.
\<close>

function renderable :: "CppON \<Rightarrow> bool"
  and renderable_entries :: "(string \<times> ptr) list \<Rightarrow> string list \<Rightarrow> bool"
  and renderable_elements :: "ptr list \<Rightarrow> bool"
where
  "renderable (COInteger f d) = True"
| "renderable (CODouble p v) = True"
| "renderable (COString s) = True"
| "renderable (COBoolean b) = True"
| "renderable CONull = True"
| "renderable (COMap m ord) = renderable_entries m ord"
| "renderable (COArray v) = renderable_elements v"
| "renderable_entries m [] = True"
| "renderable_entries m (k # ks) =
     (case map_find k m of
        None \<Rightarrow> False
      | Some NULL \<Rightarrow> False
      | Some (Ptr a n) \<Rightarrow> if renderable n then renderable_entries m ks else False)"
| "renderable_elements [] = True"
| "renderable_elements (NULL # v) = False"
| "renderable_elements (Ptr a n # v) = (if renderable n then renderable_elements v else False)"
  by pat_completeness auto
termination
  apply (relation "measures [\<lambda>x. case x of Inl n \<Rightarrow> size n
                                  | Inr (Inl (m, ks)) \<Rightarrow> size_list (size_prod (\<lambda>x. 0) size) m
                                  | Inr (Inr v) \<Rightarrow> size_list size v,
                             \<lambda>x. case x of Inl n \<Rightarrow> 0
                                  | Inr (Inl (m, ks)) \<Rightarrow> Suc (length ks)
                                  | Inr (Inr v) \<Rightarrow> Suc (length v)]")
  apply (auto dest: map_find_size)
  done


section \<open>Equality\<close>

text \<open>
  \<^verbatim>\<open>enum CppONType\<close> and the field \<^verbatim>\<open>typ\<close> that every node carries.
\<close>

datatype CppONType =
    UNKNOWN_CPPON_OBJ_TYPE | INTEGER_CPPON_OBJ_TYPE | DOUBLE_CPPON_OBJ_TYPE
  | STRING_CPPON_OBJ_TYPE | NULL_CPPON_OBJ_TYPE | BOOLEAN_CPPON_OBJ_TYPE
  | MAP_CPPON_OBJ_TYPE | ARRAY_CPPON_OBJ_TYPE

fun CppON_type :: "CppON \<Rightarrow> CppONType" where
  "CppON_type (COInteger _ _) = INTEGER_CPPON_OBJ_TYPE"
| "CppON_type (CODouble _ _) = DOUBLE_CPPON_OBJ_TYPE"
| "CppON_type (COString _) = STRING_CPPON_OBJ_TYPE"
| "CppON_type CONull = NULL_CPPON_OBJ_TYPE"
| "CppON_type (COBoolean _) = BOOLEAN_CPPON_OBJ_TYPE"
| "CppON_type (COMap _ _) = MAP_CPPON_OBJ_TYPE"
| "CppON_type (COArray _) = ARRAY_CPPON_OBJ_TYPE"

text \<open>
  \<^verbatim>\<open>COInteger::operator ==\<close>: the stored values when the widths agree, else both widened
  to \<^verbatim>\<open>long long\<close>.
\<close>

definition COInteger_eq :: "int_data \<Rightarrow> int_data \<Rightarrow> bool" where
  "COInteger_eq this newObj =
     (if siz this = siz newObj then newObj = this else longValue this = longValue newObj)"

text \<open>
  \<^verbatim>\<open>COArray::operator ==\<close> compares the sizes and then \<^verbatim>\<open>val.at( i ) == this->at( i )\<close>:
  both sides are of type \<^verbatim>\<open>CppON *\<close>, so this is the comparison of two pointers.
\<close>

fun ptr_eq :: "ptr \<Rightarrow> ptr \<Rightarrow> bool" where
  "ptr_eq NULL NULL = True"
| "ptr_eq (Ptr a _) (Ptr b _) = (a = b)"
| "ptr_eq _ _ = False"

definition COArray_eq :: "ptr list \<Rightarrow> ptr list \<Rightarrow> bool" where
  "COArray_eq this val =
     (if length val \<noteq> length this then False
      else list_all (\<lambda>i. ptr_eq (COArray_at (Some val) (of_nat i)) (COArray_at (Some this) (of_nat i)))
             [0 ..< length val])"

text \<open>What \<^verbatim>\<open>findElement\<close> returns lies inside the map it searched.\<close>

lemma findElement_size:
  "(COMap_findElement m str \<noteq> NULL \<longrightarrow>
      size (COMap_findElement m str) < size_list (size_prod (\<lambda>x. 0) size) m)"
  and index_walk_size:
  "index_walk rtn arrayIndex more str' \<noteq> NULL \<longrightarrow>
      size (index_walk rtn arrayIndex more str') \<le> size rtn"
proof (induction m str and rtn arrayIndex more str' rule: COMap_findElement_index_walk.induct)
  case (1 m str)
  obtain s0 str' where sp: "splitPath str = (s0, str')" by (cases "splitPath str")
  obtain s rest where si1: "split_index s0 = (s, rest)"
    by (cases "split_index s0")
  obtain arrayIndex more where si2: "rest = (arrayIndex, more)"
    by (cases rest)
  have si: "split_index s0 = (s, arrayIndex, more)"
    using si1 si2 by simp
  let ?rtn = "first_match m s"
  show ?case
  proof (cases "isMap ?rtn \<and> deref str' \<noteq> NUL")
    case True
    then have eq: "COMap_findElement m str = COMap_findElement (map_data ?rtn) str'"
      by (subst COMap_findElement.simps) (auto simp add: sp si Let_def)
    from "1.IH"(1)[OF sp[symmetric] si1[symmetric] si2[symmetric] refl True]
    have "COMap_findElement (map_data ?rtn) str' \<noteq> NULL \<longrightarrow>
      size (COMap_findElement (map_data ?rtn) str') < size_list (size_prod (\<lambda>x. 0) size) (map_data ?rtn)"
      by simp
    moreover have "size_list (size_prod (\<lambda>x. 0) size) (map_data ?rtn) < size ?rtn"
      using True map_data_size by blast
    moreover have "size ?rtn < size_list (size_prod (\<lambda>x. 0) size) m"
      using True first_match_size[of m s] by auto
    ultimately show ?thesis using eq by auto
  next
    case nm: False
    show ?thesis
    proof (cases "isArray ?rtn \<and> 0 \<le> sint arrayIndex")
      case True
      then have eq: "COMap_findElement m str = index_walk ?rtn arrayIndex more str'"
        using nm by (subst COMap_findElement.simps) (auto simp add: sp si Let_def)
      from "1.IH"(2)[OF sp[symmetric] si1[symmetric] si2[symmetric] refl nm True]
      have "index_walk ?rtn arrayIndex more str' \<noteq> NULL \<longrightarrow>
        size (index_walk ?rtn arrayIndex more str') \<le> size ?rtn"
        by simp
      moreover have "size ?rtn < size_list (size_prod (\<lambda>x. 0) size) m"
        using True first_match_size[of m s] by auto
      ultimately show ?thesis using eq by auto
    next
      case False
      then have eq: "COMap_findElement m str = ?rtn"
        using nm by (subst COMap_findElement.simps) (auto simp add: sp si Let_def)
      then show ?thesis using first_match_size[of m s] by auto
    qed
  qed
next
  case (2 rtn arrayIndex more str)
  show ?case
  proof (cases "isArray rtn \<and> 0 \<le> sint arrayIndex")
    case False
    then have "index_walk rtn arrayIndex more str = rtn"
      by (subst index_walk.simps) (auto simp add: Let_def)
    then show ?thesis by simp
  next
    case True
    let ?r = "COArray_at (Some (array_data rtn)) arrayIndex"
    have sz: "?r \<noteq> NULL \<Longrightarrow> size ?r < size rtn"
      using True COArray_at_size by blast
    show ?thesis
    proof (cases "isMap ?r \<and> deref str \<noteq> NUL")
      case m: True
      then have eq: "index_walk rtn arrayIndex more str = COMap_findElement (map_data ?r) str"
        using True by (subst index_walk.simps) (auto simp add: Let_def)
      from "2.IH"(1)[OF True refl m]
      have "COMap_findElement (map_data ?r) str \<noteq> NULL \<longrightarrow>
        size (COMap_findElement (map_data ?r) str) < size_list (size_prod (\<lambda>x. 0) size) (map_data ?r)"
        by simp
      moreover have "size_list (size_prod (\<lambda>x. 0) size) (map_data ?r) < size ?r"
        using m map_data_size by blast
      moreover have "size ?r < size rtn" using sz m by auto
      ultimately show ?thesis using eq by auto
    next
      case nm: False
      show ?thesis
      proof (cases "\<not> isArray ?r \<or> deref more \<noteq> CHR '':''")
        case t: True
        then have eq: "index_walk rtn arrayIndex more str = ?r"
          using True nm by (subst index_walk.simps) (auto simp add: Let_def)
        then show ?thesis using sz by (cases "?r = NULL") auto
      next
        case f: False
        obtain v r where st: "strtol (tl more) 10 = (v, r)" by (cases "strtol (tl more) 10")
        have eq: "index_walk rtn arrayIndex more str = index_walk ?r (word_of_int v) (c_str r) str"
          using True nm f by (subst index_walk.simps) (auto simp add: Let_def st)
        from "2.IH"(2)[OF True refl nm f st[symmetric]]
        have "index_walk ?r (word_of_int v) (c_str r) str \<noteq> NULL \<longrightarrow>
           size (index_walk ?r (word_of_int v) (c_str r) str) \<le> size ?r" by simp
        moreover have "size ?r < size rtn" using sz f by auto
        ultimately show ?thesis using eq by auto
      qed
    qed
  qed
qed

text \<open>
  \<^verbatim>\<open>CppON::operator ==\<close> dispatches on \<^verbatim>\<open>typ\<close>. \<^verbatim>\<open>COMap::operator ==\<close> walks the entries
  of \<^verbatim>\<open>this\<close> from \<^verbatim>\<open>begin()\<close> to \<^verbatim>\<open>end()\<close>, looks each key up in \<^verbatim>\<open>val\<close> with
  \<^verbatim>\<open>findElement\<close> and compares the two nodes with \<^verbatim>\<open>*t != *itr->second\<close>.
\<close>

function CppON_eq :: "CppON \<Rightarrow> CppON \<Rightarrow> bool"
  and COMap_eq_loop :: "(string \<times> ptr) list \<Rightarrow> (string \<times> ptr) list \<Rightarrow> bool"
where
  "CppON_eq this obj =
     (if CppON_type this \<noteq> CppON_type obj then False
      else case this of
        COInteger _ d \<Rightarrow> (case obj of COInteger _ d' \<Rightarrow> COInteger_eq d d' | _ \<Rightarrow> False)
      | CODouble _ r \<Rightarrow> (case obj of CODouble _ r' \<Rightarrow> d_eq r' r | _ \<Rightarrow> False)
      | COString s \<Rightarrow> (case obj of COString s' \<Rightarrow> s = c_str s' | _ \<Rightarrow> False)
      | CONull \<Rightarrow> True
      | COBoolean b \<Rightarrow> (case obj of COBoolean b' \<Rightarrow> b' = b | _ \<Rightarrow> False)
      | COMap th _ \<Rightarrow> (case obj of COMap val _ \<Rightarrow> COMap_eq_loop th val | _ \<Rightarrow> False)
      | COArray v \<Rightarrow> (case obj of COArray v' \<Rightarrow> COArray_eq v v' | _ \<Rightarrow> False))"
| "COMap_eq_loop [] val = True"
| "COMap_eq_loop ((first, second) # th) val =
     (case COMap_findElement val (c_str first) of
        NULL \<Rightarrow> False
      | Ptr _ t \<Rightarrow>
          (case second of
             NULL \<Rightarrow> False
           | Ptr _ n \<Rightarrow>
               if CppON_type t \<noteq> CppON_type n then False
               else if \<not> CppON_eq t n then False
               else COMap_eq_loop th val))"
  by pat_completeness auto

termination
  apply (relation "measure (\<lambda>x. case x of
            Inl (this, obj) \<Rightarrow> size this + size obj
          | Inr (th, val) \<Rightarrow> size_list (size_prod (\<lambda>x. 0) size) th
                             + size_list (size_prod (\<lambda>x. 0) size) val)")
     apply simp
    apply simp
  subgoal for first second th val a t b n
    using findElement_size[of val "c_str first"] by simp
  subgoal by simp
  done

declare CppON_eq.simps [simp del]

section \<open>The parsers\<close>

text \<open>
  A \<^verbatim>\<open>const char *\<close> into a buffer that ends with a NUL: \<open>Some s\<close> when the bytes from the
  pointer up to the NUL are \<open>s\<close>, \<open>None\<close> when the pointer has moved past the NUL. Reading
  through a pointer past the NUL is undefined.
\<close>

type_synonym cptr = "string option"

text \<open>A fault of one step is the fault of the whole call.\<close>

definition and_then :: "fault + 'a \<Rightarrow> ('a \<Rightarrow> fault + 'b) \<Rightarrow> fault + 'b" where
  "and_then x f = (case x of Inl e \<Rightarrow> Inl e | Inr v \<Rightarrow> f v)"

text \<open>\<^verbatim>\<open>p[i]\<close> and \<^verbatim>\<open>p + k\<close>.\<close>

definition peek :: "cptr \<Rightarrow> nat \<Rightarrow> fault + char" where
  "peek p i =
     (case p of
        None \<Rightarrow> Inl Undefined
      | Some s \<Rightarrow> if i < length s then Inr (s ! i)
                  else if i = length s then Inr NUL
                  else Inl Undefined)"

definition advance :: "cptr \<Rightarrow> nat \<Rightarrow> cptr" where
  "advance p k =
     (case p of
        None \<Rightarrow> None
      | Some s \<Rightarrow> if k \<le> length s then Some (drop k s) else None)"

text \<open>\<^verbatim>\<open>'0' <= ch && '9' >= ch\<close>.\<close>

definition is_digit :: "char \<Rightarrow> bool" where
  "is_digit ch = (ch \<in> set ''0123456789'')"

text \<open>
  The test of the four \<^verbatim>\<open>DumpWhiteSpace\<close> functions, which compares with the letter
  \<^verbatim>\<open>'r'\<close>, and the test of \<^verbatim>\<open>parseJson\<close> and \<^verbatim>\<open>GetTNetstring\<close>, which compares with
  \<^verbatim>\<open>'\r'\<close>.
\<close>

definition blank :: "char \<Rightarrow> bool" where
  "blank ch = (ch = CHR '' '' \<or> ch = CHR 0x09 \<or> ch = CHR 0x0A \<or> ch = CHR ''r'')"

definition json_blank :: "char \<Rightarrow> bool" where
  "json_blank ch = (ch = CHR '' '' \<or> ch = CHR 0x09 \<or> ch = CHR 0x0A \<or> ch = CHR 0x0D)"

text \<open>\<^verbatim>\<open>DumpWhiteSpace\<close>: the character it stops at and the pointer to it.\<close>

definition DumpWhiteSpace :: "cptr \<Rightarrow> fault + (char \<times> cptr)" where
  "DumpWhiteSpace str =
     (case str of
        None \<Rightarrow> Inl Undefined
      | Some s \<Rightarrow> Inr (deref (dropWhile blank s), Some (dropWhile blank s)))"

text \<open>
  \<^verbatim>\<open>for( unsigned i = 0; 0 != (ch = p[ i ] ) && ('0' <= ch && '9' >= ch); i++);\<close> leaves in
  \<^verbatim>\<open>ch\<close> the first character that is no digit.
\<close>

definition first_non_digit :: "cptr \<Rightarrow> fault + char" where
  "first_non_digit p =
     (case p of
        None \<Rightarrow> Inl Undefined
      | Some s \<Rightarrow> Inr (deref (dropWhile is_digit s)))"

text \<open>\<^verbatim>\<open>strncasecmp( s1, s2, n ) == 0\<close>.\<close>

definition tolower :: "char \<Rightarrow> char" where
  "tolower c =
     (case map_of (zip ''ABCDEFGHIJKLMNOPQRSTUVWXYZ'' ''abcdefghijklmnopqrstuvwxyz'') c of
        Some d \<Rightarrow> d
      | None \<Rightarrow> c)"

definition strncasecmp :: "string \<Rightarrow> string \<Rightarrow> nat \<Rightarrow> bool" where
  "strncasecmp s1 s2 n = (map tolower (take n (c_str s1)) = map tolower (take n (c_str s2)))"

text \<open>
  \<^verbatim>\<open>strtod\<close>: white space, a sign, then \<^verbatim>\<open>infinity\<close> or \<^verbatim>\<open>inf\<close>, or \<^verbatim>\<open>nan\<close> with an
  optional sequence of letters, digits and underscores in parentheses, or a hexadecimal
  number after \<^verbatim>\<open>0x\<close> with an optional binary exponent, or a decimal number with an
  optional exponent; letters in either case. The value is the nearest binary64 number, an
  infinity beyond the range. Without a number the result is 0 and the end pointer the start.
\<close>

definition pow10 :: "int \<Rightarrow> rat" where
  "pow10 k = (if 0 \<le> k then 10 ^ nat k else 1 / 10 ^ nat (- k))"

definition strtod_exponent :: "char \<Rightarrow> string \<Rightarrow> int \<times> string" where
  "strtod_exponent mark s =
     (if tolower (deref s) = mark then
        let t = tl s;
            neg = (deref t = CHR ''-'');
            t' = (if deref t = CHR ''-'' \<or> deref t = CHR ''+'' then tl t else t);
            ds = takeWhile is_digit t'
        in if ds = [] then (0, s)
           else (if neg then - digits_value 10 ds else digits_value 10 ds, dropWhile is_digit t')
      else (0, s))"

definition is_xdigit :: "char \<Rightarrow> bool" where
  "is_xdigit c = (digit_value c < 16)"

definition decimal_float :: "string \<Rightarrow> (rat \<times> string) option" where
  "decimal_float s =
     (let ip = takeWhile is_digit s;
          s1 = dropWhile is_digit s;
          fp = (if deref s1 = CHR ''.'' then takeWhile is_digit (tl s1) else []);
          s2 = (if deref s1 = CHR ''.'' then dropWhile is_digit (tl s1) else s1)
      in if ip = [] \<and> fp = [] then None
         else case strtod_exponent CHR ''e'' s2 of (e, s3) \<Rightarrow>
           Some (of_int (digits_value 10 (ip @ fp)) * pow10 (e - int (length fp)), s3))"

definition hex_float :: "string \<Rightarrow> (rat \<times> string) option" where
  "hex_float s =
     (let ip = takeWhile is_xdigit s;
          s1 = dropWhile is_xdigit s;
          fp = (if deref s1 = CHR ''.'' then takeWhile is_xdigit (tl s1) else []);
          s2 = (if deref s1 = CHR ''.'' then dropWhile is_xdigit (tl s1) else s1)
      in if ip = [] \<and> fp = [] then None
         else case strtod_exponent CHR ''p'' s2 of (e, s3) \<Rightarrow>
           Some (of_int (digits_value 16 (ip @ fp)) * pow2 (e - 4 * int (length fp)), s3))"

definition nan_rest :: "string \<Rightarrow> string" where
  "nan_rest s =
     (if deref s = CHR ''('' then
        let r = dropWhile (\<lambda>c. digit_value c < 36 \<or> c = CHR ''_'') (tl s)
        in if deref r = CHR '')'' then tl r else s
      else s)"

definition strtod_unsigned :: "string \<Rightarrow> (double \<times> string) option" where
  "strtod_unsigned s =
     (if strncasecmp s ''infinity'' 8 then Some (Infinity False, drop 8 s)
      else if strncasecmp s ''inf'' 3 then Some (Infinity False, drop 3 s)
      else if strncasecmp s ''nan'' 3 then Some (NaN False, nan_rest (drop 3 s))
      else case (if strncasecmp s ''0x'' 2 then hex_float (drop 2 s) else None) of
             Some (x, rest) \<Rightarrow> Some (to_double False x, rest)
           | None \<Rightarrow>
               (case decimal_float s of
                  Some (x, rest) \<Rightarrow> Some (to_double False x, rest)
                | None \<Rightarrow> None))"

definition strtod :: "string \<Rightarrow> double \<times> string" where
  "strtod nptr =
     (let s1 = dropWhile isspace nptr;
          s2 = (if deref s1 = CHR ''-'' \<or> deref s1 = CHR ''+'' then tl s1 else s1)
      in case strtod_unsigned s2 of
           None \<Rightarrow> (Finite 0, nptr)
         | Some (d, rest) \<Rightarrow> (if deref s1 = CHR ''-'' then d_neg d else d, rest))"

text \<open>
  \<^verbatim>\<open>COString::COString( std::string st )\<close> rewrites the double quote, the percent sign and
  the byte 0 as \<^verbatim>\<open>%22\<close>, \<^verbatim>\<open>%25\<close> and \<^verbatim>\<open>%00\<close>.
\<close>

definition COString_of_string :: "string \<Rightarrow> string" where
  "COString_of_string st =
     c_str (concat (map (\<lambda>ch. if ch = CHR 0x22 then ''%22''
                              else if ch = CHR ''%'' then ''%25''
                              else if ch = NUL then ''%00''
                              else [ch]) st))"

text \<open>\<^verbatim>\<open>name->c_str()\<close> reads the string of a \<^verbatim>\<open>COString\<close>.\<close>

fun string_data :: "ptr \<Rightarrow> string" where
  "string_data (Ptr _ (COString s)) = s"
| "string_data _ = []"

text \<open>
  The loop of \<^verbatim>\<open>GetObj\<close> over a quoted string: a backslash takes the next byte as it is.
  The result is the text and \<^verbatim>\<open>&nc[ ++n ]\<close>, which lies past the NUL when the closing
  quote is missing. After a backslash in front of the NUL the loop reads on past the NUL.
\<close>

fun scan_string :: "string \<Rightarrow> string \<Rightarrow> fault + (string \<times> cptr)" where
  "scan_string [] acum = Inr (acum, None)"
| "scan_string (ch # nc) acum =
     (if ch = CHR 0x22 then Inr (acum, Some nc)
      else if ch = CHR 0x5C then
        (case nc of
           [] \<Rightarrow> Inl Undefined
         | ch' # nc' \<Rightarrow> scan_string nc' (acum @ [ch']))
      else scan_string nc (acum @ [ch]))"

text \<open>
  The cases of the \<^verbatim>\<open>switch\<close> on the type byte in \<^verbatim>\<open>GetTNetstring\<close> that build no
  container; \<open>h\<close> is the next free address.
\<close>

definition tnet_scalar :: "addr \<Rightarrow> char \<Rightarrow> 32 word \<Rightarrow> string \<Rightarrow> fault + (addr \<times> ptr)" where
  "tnet_scalar h typ len str =
     (if typ = CHR '','' then Inr (Suc h, Ptr h (COString (COString_of_string (take (unat len) str))))
      else if typ = CHR ''#'' then
        Inr (Suc h, Ptr h (COInteger (Some True) (I64 (word_of_int (fst (strtol str 0))))))
      else if typ = CHR ''^'' then
        Inr (Suc h, Ptr h (CODouble 10 (fst (strtod str))))
      else if typ = CHR ''!'' then
        (if strncasecmp str ''true'' 4 then Inr (Suc h, Ptr h (COBoolean True))
         else if strncasecmp str ''false'' 5 then Inr (Suc h, Ptr h (COBoolean True))
         else Inr (h, NULL))
      else if typ = CHR ''~'' then Inr (Suc h, Ptr h CONull)
      else Inr (h, NULL))"

text \<open>
  The branch of \<^verbatim>\<open>GetObj\<close> for numbers. \<open>number_start\<close> is \<^verbatim>\<open>&nc[ -1 ]\<close>: the text after
  the sign, or from the first digit.
\<close>

definition number_start :: "char \<Rightarrow> string \<Rightarrow> string" where
  "number_start ch nc = (if ch = CHR ''+'' \<or> ch = CHR ''-'' then nc else ch # nc)"

definition GetObj_number :: "addr \<Rightarrow> char \<Rightarrow> string \<Rightarrow> fault + (addr \<times> ptr \<times> cptr)" where
  "GetObj_number h ch nc =
     (let neg = (ch = CHR ''-'');
          nc1 = (if ch = CHR ''+'' \<or> ch = CHR ''-'' then advance (Some nc) 1 else Some nc);
          start = number_start ch nc
      in case nc1 of
           None \<Rightarrow> Inl Undefined
         | Some q \<Rightarrow>
             if deref (dropWhile (\<lambda>c. c \<noteq> CHR '','' \<and> c \<noteq> CHR ''}'' \<and> c \<noteq> CHR ''.'') q) \<noteq> CHR ''.''
             then
               (case strtol start (if ch = CHR ''0'' \<and> deref q = CHR ''x'' then 16 else 10) of
                  (v, rest) \<Rightarrow>
                    let n = (word_of_int v :: 64 word)
                    in and_then (DumpWhiteSpace (Some rest)) (\<lambda>(_, str').
                         Inr (Suc h, Ptr h (COInteger (Some True) (I64 (if neg then - n else n))), str')))
             else
               (case strtod start of
                  (d, rest) \<Rightarrow>
                    and_then (DumpWhiteSpace (Some rest)) (\<lambda>(_, str').
                      Inr (Suc h, Ptr h (CODouble 10 (if neg then d_neg d else d)), str'))))"

text \<open>The conditions of the branches for \<^verbatim>\<open>true\<close> and \<^verbatim>\<open>false\<close>.\<close>

definition is_true :: "char \<Rightarrow> string \<Rightarrow> bool" where
  "is_true ch nc =
     ((ch = CHR ''t'' \<or> ch = CHR ''T'') \<and> strncasecmp nc ''rue'' 3
      \<and> (ch \<noteq> deref (drop 3 nc) \<or> CHR '','' = ch \<or> CHR '' '' = ch \<or> CHR 0x09 = ch
           \<or> CHR 0x0A = ch \<or> CHR 0x0D = ch))"

definition is_false :: "char \<Rightarrow> string \<Rightarrow> bool" where
  "is_false ch nc =
     ((ch = CHR ''f'' \<or> ch = CHR ''F'') \<and> strncasecmp nc ''alse'' 4
      \<and> (ch \<noteq> deref (drop 4 nc) \<or> CHR '','' = ch \<or> CHR '' '' = ch \<or> CHR 0x09 = ch
           \<or> CHR 0x0A = ch \<or> CHR 0x0D = ch))"

text \<open>
  \<^verbatim>\<open>GetTNetstring\<close> and \<^verbatim>\<open>GetObj\<close> call each other and themselves. Each body is written
  over the functions it calls; the recursion is then closed over the fuel, one unit per call
  and per turn of a loop. A parser takes the next free address and \<^verbatim>\<open>*str\<close>, and returns
  the next free address, the node and \<^verbatim>\<open>*str\<close>.
\<close>

type_synonym parser = "addr \<Rightarrow> cptr \<Rightarrow> fault + (addr \<times> ptr \<times> cptr)"

type_synonym tnet_map_loop =
  "addr \<Rightarrow> addr \<Rightarrow> (string \<times> ptr) list \<Rightarrow> string list \<Rightarrow> cptr \<Rightarrow> fault + (addr \<times> ptr)"

type_synonym tnet_array_loop = "addr \<Rightarrow> addr \<Rightarrow> ptr list \<Rightarrow> cptr \<Rightarrow> fault + (addr \<times> ptr)"

type_synonym obj_map_loop =
  "addr \<Rightarrow> (string \<times> ptr) list \<Rightarrow> string list \<Rightarrow> char \<Rightarrow> cptr \<Rightarrow>
     fault + (addr \<times> (string \<times> ptr) list \<times> string list \<times> bool \<times> cptr)"

type_synonym obj_array_loop =
  "addr \<Rightarrow> ptr list \<Rightarrow> char \<Rightarrow> cptr \<Rightarrow> fault + (addr \<times> ptr list \<times> bool \<times> cptr)"

text \<open>
  \<^verbatim>\<open>if( ':' != ch ) obj = GetObj( &p ); else obj = GetTNetstring( &p );\<close> after the scan for
  the first character that is no digit.
\<close>

definition next_value :: "parser \<Rightarrow> parser \<Rightarrow> parser" where
  "next_value getObj getTNetstring h p =
     and_then (first_non_digit p) (\<lambda>ch.
       if CHR '':'' \<noteq> ch then getObj h p else getTNetstring h p)"

text \<open>\<^verbatim>\<open>CppON *CppON::GetTNetstring( const char **str )\<close>.\<close>

definition GetTNetstring_body :: "tnet_map_loop \<Rightarrow> tnet_array_loop \<Rightarrow> parser" where
  "GetTNetstring_body map_loop array_loop h str =
     (case str of
        None \<Rightarrow> Inl Undefined
      | Some s \<Rightarrow>
          (case strtol s 10 of (v, s1) \<Rightarrow>
             let len = (word_of_int v :: 32 word);
                 s2 = dropWhile json_blank s1;
                 ch = deref s2;
                 str1 = advance (Some s2) 1
             in if ch = CHR '':'' then
                  and_then (peek str1 (unat len)) (\<lambda>typ.
                  and_then
                    (if typ = CHR ''}'' then
                       map_loop (Suc h) h [] [] (Some (c_str (take (unat len) (tl s2))))
                     else if typ = CHR '']'' then
                       array_loop (Suc h) h [] (Some (c_str (take (unat len) (tl s2))))
                     else tnet_scalar h typ len (tl s2))
                    (\<lambda>(h', base). Inr (h', base, advance str1 (unat (len + 1)))))
                else Inr (h, NULL, str1)))"

text \<open>
  One turn of the \<^verbatim>\<open>while( *cptr )\<close> loops of the cases \<^verbatim>\<open>'}'\<close> and \<^verbatim>\<open>']'\<close>; \<open>a\<close> is the
  address of \<^verbatim>\<open>base\<close>. The array loop appends whatever the parser returned.
\<close>

definition tnet_map_body :: "parser \<Rightarrow> parser \<Rightarrow> tnet_map_loop \<Rightarrow> tnet_map_loop" where
  "tnet_map_body getObj getTNetstring loop h a m ord cptr =
     and_then (peek cptr 0) (\<lambda>c.
       if c = NUL then Inr (h, Ptr a (COMap m ord))
       else
         and_then (DumpWhiteSpace cptr) (\<lambda>(_, p1).
         and_then (next_value getObj getTNetstring h p1) (\<lambda>(h1, name, p2).
         and_then (DumpWhiteSpace p2) (\<lambda>(c3, p3).
           if c3 \<noteq> NUL \<and> isString name then
             and_then (next_value getObj getTNetstring h1 p3) (\<lambda>(h2, val, p4).
               if isObj val then
                 (case COMap_append h2 m ord (c_str (string_data name)) val of
                    (h3, _, m', ord') \<Rightarrow> loop h3 a m' ord' p4)
               else Inr (h2, NULL))
           else Inr (h1, NULL)))))"

definition tnet_array_body :: "parser \<Rightarrow> parser \<Rightarrow> tnet_array_loop \<Rightarrow> tnet_array_loop" where
  "tnet_array_body getObj getTNetstring loop h a v cptr =
     and_then (peek cptr 0) (\<lambda>c.
       if c = NUL then Inr (h, Ptr a (COArray v))
       else
         and_then (DumpWhiteSpace cptr) (\<lambda>(_, p1).
         and_then (next_value getObj getTNetstring h p1) (\<lambda>(h1, obj, p2).
         and_then (peek p2 0) (\<lambda>c2.
           if c2 \<noteq> NUL then
             and_then (DumpWhiteSpace p2) (\<lambda>(ch, p3).
               if CHR '','' = ch then loop h1 a (v @ [obj]) (advance p3 1)
               else if \<not> is_digit ch then Inr (h1, NULL)
               else loop h1 a (v @ [obj]) p3)
           else loop h1 a (v @ [obj]) p2))))"

text \<open>
  \<^verbatim>\<open>CppON *CppON::GetObj( const char **str )\<close>. The last \<^verbatim>\<open>else\<close> prints \<^verbatim>\<open>ch\<close> and
  the text at \<^verbatim>\<open>nc\<close>, which lies past the NUL when \<^verbatim>\<open>ch\<close> is the NUL, and calls
  \<^verbatim>\<open>exit( 0 )\<close>.
\<close>

definition GetObj_body :: "obj_map_loop \<Rightarrow> obj_array_loop \<Rightarrow> parser" where
  "GetObj_body map_loop array_loop h str =
     and_then (DumpWhiteSpace str) (\<lambda>(ch, str0).
       let nc = advance str0 1
       in if CHR ''{'' = ch then
            and_then (DumpWhiteSpace nc) (\<lambda>(ch1, nc1).
            and_then (map_loop (Suc h) [] [] ch1 nc1) (\<lambda>(h', m, ord, fail, nc2).
            and_then (DumpWhiteSpace (advance nc2 1)) (\<lambda>(_, str').
              Inr (h', if \<not> fail then Ptr h (COMap m ord) else NULL, str'))))
          else if CHR ''['' = ch then
            and_then (DumpWhiteSpace nc) (\<lambda>(_, nc1).
            and_then (array_loop (Suc h) [] ch nc1) (\<lambda>(h', v, fail, nc2).
            and_then (DumpWhiteSpace (advance nc2 1)) (\<lambda>(_, str').
              Inr (h', if \<not> fail then Ptr h (COArray v) else NULL, str'))))
          else if CHR 0x22 = ch then
            and_then (scan_string (the nc) []) (\<lambda>(acum, str1).
            and_then (DumpWhiteSpace str1) (\<lambda>(_, str').
              Inr (Suc h, Ptr h (COString (c_str acum)), str')))
          else if ch \<noteq> NUL \<and> is_true ch (the nc) then
            and_then (DumpWhiteSpace (advance str0 4)) (\<lambda>(_, str').
              Inr (Suc h, Ptr h (COBoolean True), str'))
          else if ch \<noteq> NUL \<and> is_false ch (the nc) then
            and_then (DumpWhiteSpace (advance str0 5)) (\<lambda>(_, str').
              Inr (Suc h, Ptr h (COBoolean False), str'))
          else if is_digit ch \<or> CHR ''-'' = ch \<or> CHR ''+'' = ch then GetObj_number h ch (the nc)
          else and_then (peek nc 0) (\<lambda>_. Inl ProcessExit))"

text \<open>
  One turn of \<^verbatim>\<open>while( ! fail && 0 != ch && '}' != ch )\<close>. The result holds \<^verbatim>\<open>fail\<close> and
  \<^verbatim>\<open>nc\<close>. When the character after a value is neither a comma nor the closing brace, the
  diagnostic builds \<^verbatim>\<open>std::string sub( &nc[ -2 ], 48 )\<close>, which reads up to \<^verbatim>\<open>nc[ 45 ]\<close>.
\<close>

definition obj_map_body :: "parser \<Rightarrow> parser \<Rightarrow> obj_map_loop \<Rightarrow> obj_map_loop" where
  "obj_map_body getObj getTNetstring loop h m ord ch nc =
     (if ch = NUL \<or> ch = CHR ''}'' then Inr (h, m, ord, False, nc)
      else
        and_then (DumpWhiteSpace nc) (\<lambda>(_, nc1).
          let q = dropWhile (\<lambda>c. c \<noteq> CHR 0x22) (the nc1)
          in if deref q = NUL then Inr (h, m, ord, True, None)
             else
               let name = takeWhile (\<lambda>c. c \<noteq> CHR 0x22) (tl q);
                   r = dropWhile (\<lambda>c. c \<noteq> CHR 0x22) (tl q)
               in if deref r = NUL then Inr (h, m, ord, True, Some (tl q))
                  else
                    and_then (DumpWhiteSpace (Some (tl r))) (\<lambda>(ch2, nc2).
                      if CHR '':'' = ch2 then
                        and_then (DumpWhiteSpace (advance nc2 1)) (\<lambda>(_, nc3).
                        and_then (next_value getObj getTNetstring h nc3) (\<lambda>(h1, obj, nc4).
                          if obj \<noteq> NULL then
                            (case COMap_append h1 m ord (c_str name) obj of
                               (h2, _, m', ord') \<Rightarrow>
                                 and_then (DumpWhiteSpace nc4) (\<lambda>(ch5, nc5).
                                   if CHR '','' = ch5 then loop h2 m' ord' ch5 (advance nc5 1)
                                   else if ch5 \<noteq> NUL \<and> CHR ''}'' \<noteq> ch5 then
                                     and_then (peek nc5 45) (\<lambda>_. Inr (h2, m', ord', True, nc5))
                                   else loop h2 m' ord' ch5 nc5))
                          else Inr (h1, m, ord, True, nc4)))
                      else Inr (h, m, ord, True, nc2))))"

text \<open>One turn of \<^verbatim>\<open>while( !fail && 0 != ch && ']' != ch )\<close>.\<close>

definition obj_array_body :: "parser \<Rightarrow> parser \<Rightarrow> obj_array_loop \<Rightarrow> obj_array_loop" where
  "obj_array_body getObj getTNetstring loop h v ch nc =
     (if ch = NUL \<or> ch = CHR '']'' then Inr (h, v, False, nc)
      else
        and_then (next_value getObj getTNetstring h nc) (\<lambda>(h1, obj, nc1).
          if obj \<noteq> NULL then
            and_then (DumpWhiteSpace nc1) (\<lambda>(ch2, nc2).
              if CHR '','' = ch2 then loop h1 (v @ [obj]) ch2 (advance nc2 1)
              else if ch2 \<noteq> NUL \<and> CHR '']'' \<noteq> ch2 then Inr (h1, v @ [obj], True, nc2)
              else loop h1 (v @ [obj]) ch2 nc2)
          else Inr (h1, v, True, nc1)))"

text \<open>The recursion, closed over the fuel.\<close>

fun GetTNetstring :: "nat \<Rightarrow> parser"
  and tnet_map_loop :: "nat \<Rightarrow> tnet_map_loop"
  and tnet_array_loop :: "nat \<Rightarrow> tnet_array_loop"
  and GetObj :: "nat \<Rightarrow> parser"
  and obj_map_loop :: "nat \<Rightarrow> obj_map_loop"
  and obj_array_loop :: "nat \<Rightarrow> obj_array_loop"
where
  "GetTNetstring 0 = (\<lambda>h str. Inl NoFuel)"
| "GetTNetstring (Suc n) = GetTNetstring_body (tnet_map_loop n) (tnet_array_loop n)"
| "tnet_map_loop 0 = (\<lambda>h a m ord cptr. Inl NoFuel)"
| "tnet_map_loop (Suc n) = tnet_map_body (GetObj n) (GetTNetstring n) (tnet_map_loop n)"
| "tnet_array_loop 0 = (\<lambda>h a v cptr. Inl NoFuel)"
| "tnet_array_loop (Suc n) = tnet_array_body (GetObj n) (GetTNetstring n) (tnet_array_loop n)"
| "GetObj 0 = (\<lambda>h str. Inl NoFuel)"
| "GetObj (Suc n) = GetObj_body (obj_map_loop n) (obj_array_loop n)"
| "obj_map_loop 0 = (\<lambda>h m ord ch nc. Inl NoFuel)"
| "obj_map_loop (Suc n) = obj_map_body (GetObj n) (GetTNetstring n) (obj_map_loop n)"
| "obj_array_loop 0 = (\<lambda>h v ch nc. Inl NoFuel)"
| "obj_array_loop (Suc n) = obj_array_body (GetObj n) (GetTNetstring n) (obj_array_loop n)"

text \<open>
  \<^verbatim>\<open>CppON *CppON::parseJson( const char *str )\<close>; \<open>None\<close> is the null pointer, \<open>Some s\<close> a C
  string, which ends at its first NUL.
\<close>

definition parseJson :: "nat \<Rightarrow> addr \<Rightarrow> string option \<Rightarrow> fault + ptr" where
  "parseJson n h str =
     (case str of
        None \<Rightarrow> Inr NULL
      | Some s \<Rightarrow>
          let s' = dropWhile json_blank (c_str s);
              ch = deref s'
          in if is_digit ch then and_then (GetTNetstring n h (Some s')) (\<lambda>(_, base, _). Inr base)
             else if ch \<noteq> NUL then and_then (GetObj n h (Some s')) (\<lambda>(_, base, _). Inr base)
             else Inr NULL)"

text \<open>The characters with which \<^verbatim>\<open>GetObj\<close> lets a value start.\<close>

definition value_start :: "char \<Rightarrow> bool" where
  "value_start ch = (ch \<in> set ''{[\"tTfF+-0123456789'')"


section \<open>Copies and differences\<close>

text \<open>\<^verbatim>\<open>strcasecmp( s1, s2 ) == 0\<close>.\<close>

definition strcasecmp :: "string \<Rightarrow> string \<Rightarrow> bool" where
  "strcasecmp s1 s2 = (map tolower (c_str s1) = map tolower (c_str s2))"

text \<open>
  \<^verbatim>\<open>CppON *COMap::findCaseElement( const char *str )\<close>: the loop compares with
  \<^verbatim>\<open>strcasecmp\<close>; the walk into arrays is the one of \<^verbatim>\<open>findElement\<close> and calls
  \<^verbatim>\<open>findElement\<close>.
\<close>

fun first_match_case :: "(string \<times> ptr) list \<Rightarrow> string \<Rightarrow> ptr" where
  "first_match_case [] s = NULL"
| "first_match_case ((k, p) # m) s = (if strcasecmp k s then p else first_match_case m s)"

lemma first_match_case_size:
  "first_match_case m s \<noteq> NULL \<Longrightarrow>
   size (first_match_case m s) < size_list (size_prod (\<lambda>x. 0) size) m"
  by (induction m) (auto split: if_splits)

function COMap_findCaseElement :: "(string \<times> ptr) list \<Rightarrow> string \<Rightarrow> ptr" where
  "COMap_findCaseElement m str =
     (case splitPath str of (s0, str') \<Rightarrow>
      case split_index s0 of (s, arrayIndex, more) \<Rightarrow>
        let rtn = first_match_case m s
        in if isMap rtn \<and> deref str' \<noteq> NUL then COMap_findCaseElement (map_data rtn) str'
           else if isArray rtn \<and> 0 \<le> sint arrayIndex then index_walk rtn arrayIndex more str'
           else rtn)"
  by pat_completeness auto

termination
  apply (relation "measure (\<lambda>(m, _). size_list (size_prod (\<lambda>x. 0) size) m)")
   apply simp
  subgoal for m str s0 str' s x arrayIndex more rtn
    using first_match_case_size[of m s] map_data_size[of "first_match_case m s"] by auto
  done

declare COMap_findCaseElement.simps [simp del]

lemma findCaseElement_size:
  "COMap_findCaseElement m str \<noteq> NULL \<Longrightarrow>
     size (COMap_findCaseElement m str) < size_list (size_prod (\<lambda>x. 0) size) m"
proof (induction m str rule: COMap_findCaseElement.induct)
  case (1 m str)
  obtain s0 str' where sp: "splitPath str = (s0, str')" by (cases "splitPath str")
  obtain s rest where si1: "split_index s0 = (s, rest)"
    by (cases "split_index s0")
  obtain arrayIndex more where si2: "rest = (arrayIndex, more)"
    by (cases rest)
  have si: "split_index s0 = (s, arrayIndex, more)"
    using si1 si2 by simp
  let ?rtn = "first_match_case m s"
  show ?case
  proof (cases "isMap ?rtn \<and> deref str' \<noteq> NUL")
    case True
    then have eq: "COMap_findCaseElement m str = COMap_findCaseElement (map_data ?rtn) str'"
      by (subst COMap_findCaseElement.simps) (auto simp add: sp si Let_def)
    have "COMap_findCaseElement (map_data ?rtn) str' \<noteq> NULL"
      using "1.prems" eq by simp
    from "1.IH"[OF sp[symmetric] si1[symmetric] si2[symmetric] refl True this]
    have "size (COMap_findCaseElement (map_data ?rtn) str')
            < size_list (size_prod (\<lambda>x. 0) size) (map_data ?rtn)" .
    moreover have "size_list (size_prod (\<lambda>x. 0) size) (map_data ?rtn) < size ?rtn"
      using True map_data_size by blast
    moreover have "size ?rtn < size_list (size_prod (\<lambda>x. 0) size) m"
      using True first_match_case_size[of m s] by auto
    ultimately show ?thesis using eq by auto
  next
    case nm: False
    show ?thesis
    proof (cases "isArray ?rtn \<and> 0 \<le> sint arrayIndex")
      case True
      then have eq: "COMap_findCaseElement m str = index_walk ?rtn arrayIndex more str'"
        using nm by (subst COMap_findCaseElement.simps) (auto simp add: sp si Let_def)
      have "size (index_walk ?rtn arrayIndex more str') \<le> size ?rtn"
        using index_walk_size[of ?rtn arrayIndex more str'] "1.prems" eq by simp
      moreover have "size ?rtn < size_list (size_prod (\<lambda>x. 0) size) m"
        using True first_match_case_size[of m s] by auto
      ultimately show ?thesis using eq by auto
    next
      case False
      then have eq: "COMap_findCaseElement m str = ?rtn"
        using nm by (subst COMap_findCaseElement.simps) (auto simp add: sp si Let_def)
      then show ?thesis using first_match_case_size[of m s] "1.prems" by auto
    qed
  qed
qed

lemma findCaseElement_node_size:
  "COMap_findCaseElement m str = Ptr a n \<Longrightarrow> size n < size_list (size_prod (\<lambda>x. 0) size) m"
  using findCaseElement_size[of m str] by simp

text \<open>\<^verbatim>\<open>dm[ key ] = n\<close> on a \<^verbatim>\<open>std::map\<close>.\<close>

definition map_assign :: "string \<Rightarrow> ptr \<Rightarrow> (string \<times> ptr) list \<Rightarrow> (string \<times> ptr) list" where
  "map_assign key n m = map_insert key n (map_erase key m)"

text \<open>
  The copy constructors. \<^verbatim>\<open>COInteger( COInteger &it )\<close> copies \<^verbatim>\<open>charValue()\<close>,
  \<^verbatim>\<open>shortValue()\<close>, \<^verbatim>\<open>intValue()\<close> or \<^verbatim>\<open>longValue()\<close> by the size and sets no
  \<^verbatim>\<open>unSigned\<close>; \<^verbatim>\<open>CODouble( CODouble &dt )\<close> keeps the precision -1 of the base class;
  \<^verbatim>\<open>COString( COString &st )\<close> copies \<^verbatim>\<open>c_str()\<close>. \<^verbatim>\<open>COMap( COMap &mt )\<close> walks
  \<^verbatim>\<open>mt.order\<close>, looks every key up with \<^verbatim>\<open>findCaseElement\<close> and dereferences the result;
  \<^verbatim>\<open>COArray( COArray &at )\<close> dereferences every element. \<open>copy_node h n\<close> is the content
  of \<^verbatim>\<open>new X( n )\<close>, its children allocated from the address \<open>h\<close> on.
\<close>

fun COInteger_copy :: "int_data \<Rightarrow> int_data" where
  "COInteger_copy (I8 w) = I8 (word_of_int (clamp (- 128) 127 (longValue (I8 w))))"
| "COInteger_copy (I16 w) = I16 (word_of_int (clamp (- 32768) 32767 (longValue (I16 w))))"
| "COInteger_copy (I32 w) = I32 (word_of_int (clamp (- 2147483648) 2147483647 (longValue (I32 w))))"
| "COInteger_copy (I64 w) = I64 (word_of_int (longValue (I64 w)))"

function copy_node :: "addr \<Rightarrow> CppON \<Rightarrow> fault + (addr \<times> CppON)"
  and COMap_copy_loop ::
    "addr \<Rightarrow> (string \<times> ptr) list \<Rightarrow> string list \<Rightarrow> (string \<times> ptr) list \<Rightarrow> string list \<Rightarrow>
       fault + (addr \<times> CppON)"
  and COArray_copy_loop :: "addr \<Rightarrow> ptr list \<Rightarrow> ptr list \<Rightarrow> fault + (addr \<times> CppON)"
where
  "copy_node h (COInteger u d) = Inr (h, COInteger None (COInteger_copy d))"
| "copy_node h (CODouble p d) = Inr (h, CODouble (- 1) d)"
| "copy_node h (COString s) = Inr (h, COString (c_str s))"
| "copy_node h CONull = Inr (h, CONull)"
| "copy_node h (COBoolean b) = Inr (h, COBoolean b)"
| "copy_node h (COMap mt ord) = COMap_copy_loop h mt ord [] []"
| "copy_node h (COArray elems) = COArray_copy_loop h elems []"
| "COMap_copy_loop h mt [] dm order = Inr (h, COMap dm order)"
| "COMap_copy_loop h mt (itr # rest) dm order =
     (case COMap_findCaseElement mt (c_str itr) of
        NULL \<Rightarrow> Inl Undefined
      | Ptr _ obj \<Rightarrow>
          (case copy_node (Suc h) obj of
             Inl e \<Rightarrow> Inl e
           | Inr (h1, c) \<Rightarrow> COMap_copy_loop h1 mt rest (map_assign itr (Ptr h c) dm) (order @ [itr])))"
| "COArray_copy_loop h [] v = Inr (h, COArray v)"
| "COArray_copy_loop h (jt # rest) v =
     (case jt of
        NULL \<Rightarrow> Inl Undefined
      | Ptr _ n \<Rightarrow>
          (case copy_node (Suc h) n of
             Inl e \<Rightarrow> Inl e
           | Inr (h1, c) \<Rightarrow> COArray_copy_loop h1 rest (v @ [Ptr h c])))"
  by pat_completeness auto

termination
  apply (relation "measures [\<lambda>x. case x of Inl (h, n) \<Rightarrow> size n
                                  | Inr (Inl (h, mt, ks, dm, order)) \<Rightarrow> size_list (size_prod (\<lambda>x. 0) size) mt
                                  | Inr (Inr (h, elems, v)) \<Rightarrow> size_list size elems,
                             \<lambda>x. case x of Inl (h, n) \<Rightarrow> 0
                                  | Inr (Inl (h, mt, ks, dm, order)) \<Rightarrow> Suc (length ks)
                                  | Inr (Inr (h, elems, v)) \<Rightarrow> Suc (length elems)]")
  apply (auto dest: findCaseElement_node_size)
  done

declare copy_node.simps [simp del] COMap_copy_loop.simps [simp del] COArray_copy_loop.simps [simp del]


text \<open>\<^verbatim>\<open>intValue()\<close>.\<close>

definition COInteger_intValue :: "int_data \<Rightarrow> int" where
  "COInteger_intValue d = clamp (- 2147483648) 2147483647 (longValue d)"

text \<open>
  \<^verbatim>\<open>rtn->append( name, p )\<close>, \<^verbatim>\<open>rtn->append( name, new X( *obj ) )\<close> and
  \<^verbatim>\<open>rtn->append( name, new X( value ) )\<close> on the map that \<^verbatim>\<open>diff\<close> builds.
\<close>

definition rtn_append ::
  "addr \<Rightarrow> (string \<times> ptr) list \<Rightarrow> string list \<Rightarrow> string \<Rightarrow> ptr \<Rightarrow>
     addr \<times> (string \<times> ptr) list \<times> string list" where
  "rtn_append h m ord name p =
     (case COMap_append h m ord name p of (h', _, m', ord') \<Rightarrow> (h', m', ord'))"

definition append_copy ::
  "addr \<Rightarrow> string \<Rightarrow> CppON \<Rightarrow> (string \<times> ptr) list \<Rightarrow> string list \<Rightarrow>
     fault + (addr \<times> (string \<times> ptr) list \<times> string list)" where
  "append_copy h name obj m ord =
     (case copy_node (Suc h) obj of
        Inl e \<Rightarrow> Inl e
      | Inr (h1, c) \<Rightarrow> Inr (rtn_append h1 m ord name (Ptr h c)))"

definition append_new ::
  "addr \<Rightarrow> string \<Rightarrow> CppON \<Rightarrow> (string \<times> ptr) list \<Rightarrow> string list \<Rightarrow>
     fault + (addr \<times> (string \<times> ptr) list \<times> string list)" where
  "append_new h name n m ord = Inr (rtn_append (Suc h) m ord name (Ptr h n))"

text \<open>
  \<^verbatim>\<open>static void appendTag( string name, CppON *obj, COMap *rtn, CppON *n )\<close>. The
  \<^verbatim>\<open>default\<close> branch serves an \<^verbatim>\<open>n\<close> of type string or null, and casts it to the class
  of \<^verbatim>\<open>obj\<close> before comparing.
\<close>

definition appendTag ::
  "addr \<Rightarrow> string \<Rightarrow> CppON \<Rightarrow> (string \<times> ptr) list \<Rightarrow> string list \<Rightarrow> CppON \<Rightarrow>
     fault + (addr \<times> (string \<times> ptr) list \<times> string list)" where
  "appendTag h name obj m ord n =
     (if CppON_type obj = MAP_CPPON_OBJ_TYPE then append_copy h name obj m ord
      else if CppON_type obj = ARRAY_CPPON_OBJ_TYPE then append_copy h name obj m ord
      else case n of
        COBoolean v \<Rightarrow>
          (case obj of
             COBoolean r \<Rightarrow> if v \<noteq> r then append_new h name (COBoolean r) m ord else Inr (h, m, ord)
           | COInteger _ d \<Rightarrow>
               if v \<noteq> (COInteger_intValue d \<noteq> 0)
               then append_new h name (COBoolean (COInteger_intValue d \<noteq> 0)) m ord
               else Inr (h, m, ord)
           | CODouble _ x \<Rightarrow>
               (case double_to_int x of
                  Inl e \<Rightarrow> Inl e
                | Inr i \<Rightarrow> if v \<noteq> (i \<noteq> 0) then append_new h name (COBoolean (i \<noteq> 0)) m ord
                           else Inr (h, m, ord))
           | COString s \<Rightarrow>
               (let r = (if strcasecmp s ''true'' then True
                         else if strcasecmp s ''false'' then False
                         else fst (strtol (c_str s) 10) \<noteq> 0)
                in if v \<noteq> r then append_new h name (COBoolean r) m ord else Inr (h, m, ord))
           | CONull \<Rightarrow> append_new h name CONull m ord
           | _ \<Rightarrow> Inr (h, m, ord))
      | CODouble _ v \<Rightarrow>
          (case obj of
             CODouble _ x \<Rightarrow> if \<not> d_eq v x then append_copy h name obj m ord else Inr (h, m, ord)
           | COInteger _ d \<Rightarrow>
               if \<not> d_eq v (int_to_double (longValue d))
               then append_new h name (CODouble 10 (int_to_double (longValue d))) m ord
               else Inr (h, m, ord)
           | COString s \<Rightarrow>
               if \<not> d_eq v (fst (strtod (c_str s)))
               then append_new h name (CODouble 10 (fst (strtod (c_str s)))) m ord
               else Inr (h, m, ord)
           | COBoolean _ \<Rightarrow> append_copy h name obj m ord
           | CONull \<Rightarrow> append_new h name CONull m ord
           | _ \<Rightarrow> Inr (h, m, ord))
      | COInteger _ dn \<Rightarrow>
          (case obj of
             COInteger _ d \<Rightarrow>
               if (word_of_int (longValue dn) :: 64 word) \<noteq> word_of_int (longValue d)
               then append_copy h name obj m ord else Inr (h, m, ord)
           | COString s \<Rightarrow>
               if (word_of_int (longValue dn) :: 64 word) \<noteq> word_of_int (fst (strtol (c_str s) 0))
               then append_new h name
                      (COInteger (Some True) (I64 (word_of_int (fst (strtol (c_str s) 0))))) m ord
               else Inr (h, m, ord)
           | CODouble _ _ \<Rightarrow> append_copy h name obj m ord
           | COBoolean _ \<Rightarrow> append_copy h name obj m ord
           | CONull \<Rightarrow> append_new h name CONull m ord
           | _ \<Rightarrow> Inr (h, m, ord))
      | _ \<Rightarrow>
          (case obj of
             COInteger _ _ \<Rightarrow> Inl Undefined
           | CODouble _ _ \<Rightarrow> Inl Undefined
           | COBoolean _ \<Rightarrow> Inl Undefined
           | CONull \<Rightarrow>
               if CppON_type n \<noteq> NULL_CPPON_OBJ_TYPE then append_new h name CONull m ord
               else Inr (h, m, ord)
           | COString s \<Rightarrow>
               (case n of
                  COString sn \<Rightarrow> if sn \<noteq> c_str s then append_copy h name obj m ord
                                 else Inr (h, m, ord)
                | _ \<Rightarrow> Inl Undefined)
           | _ \<Rightarrow> append_copy h name obj m ord))"

text \<open>
  The second loop of \<^verbatim>\<open>COMap::diff\<close>: the entries of \<^verbatim>\<open>newObj\<close> whose key
  \<^verbatim>\<open>this->findElement\<close> does not find are copied into the result.
\<close>

fun COMap_diff_new ::
  "addr \<Rightarrow> (string \<times> ptr) list \<Rightarrow> (string \<times> ptr) list \<Rightarrow> (string \<times> ptr) list \<Rightarrow> string list \<Rightarrow>
     fault + (addr \<times> (string \<times> ptr) list \<times> string list)" where
  "COMap_diff_new h this [] rm rord = Inr (h, rm, rord)"
| "COMap_diff_new h this ((first, second) # rest) rm rord =
     (case (if COMap_findElement this (c_str first) = NULL then
              (case second of
                 NULL \<Rightarrow> append_new h first CONull rm rord
               | Ptr _ n \<Rightarrow> append_copy h first n rm rord)
            else Inr (h, rm, rord)) of
        Inl e \<Rightarrow> Inl e
      | Inr (h1, rm', rord') \<Rightarrow> COMap_diff_new h1 this rest rm' rord')"

text \<open>\<^verbatim>\<open>*n != *obj\<close> on two nodes of the same class.\<close>

definition differs :: "CppON \<Rightarrow> CppON \<Rightarrow> bool" where
  "differs n obj = (\<not> CppON_eq n obj)"

text \<open>
  \<^verbatim>\<open>COMap::diff\<close> with its first loop, and \<^verbatim>\<open>COArray::diff\<close> with its loop over
  \<^verbatim>\<open>newObj\<close> and the inner loop that looks for a map with the same string under \<^verbatim>\<open>name\<close>.
  \<open>it\<close> is the position of the iterator into \<^verbatim>\<open>this\<close>; it survives from one turn to
  the next. \<open>h\<close> is the next free address; the result map or array lives at \<open>h\<close>. A null
  \<^verbatim>\<open>name\<close> is \<open>None\<close>.
\<close>

lemma nth_node_size: "it < length v \<Longrightarrow> v ! it = Ptr a n \<Longrightarrow> size n < size_list size v"
  using nth_size[of it v] by simp

lemma nth_map_size:
  "it < length v \<Longrightarrow> isMap (v ! it) \<Longrightarrow>
   size_list (size_prod (\<lambda>x. 0) size) (map_data (v ! it)) < size_list size v"
  using nth_size[of it v] map_data_size[of "v ! it"] by simp

function COMap_diff ::
    "addr \<Rightarrow> (string \<times> ptr) list \<Rightarrow> (string \<times> ptr) list \<Rightarrow> string option \<Rightarrow> fault + (addr \<times> ptr)"
  and COMap_diff_loop ::
    "addr \<Rightarrow> (string \<times> ptr) list \<Rightarrow> (string \<times> ptr) list \<Rightarrow> string option \<Rightarrow>
       (string \<times> ptr) list \<Rightarrow> string list \<Rightarrow> fault + (addr \<times> (string \<times> ptr) list \<times> string list)"
  and COArray_diff ::
    "addr \<Rightarrow> ptr list \<Rightarrow> ptr list \<Rightarrow> string option \<Rightarrow> fault + (addr \<times> ptr)"
  and COArray_diff_loop ::
    "addr \<Rightarrow> ptr list \<Rightarrow> ptr list \<Rightarrow> nat \<Rightarrow> string option \<Rightarrow> ptr list \<Rightarrow>
       fault + (addr \<times> ptr list)"
  and COArray_diff_scan ::
    "addr \<Rightarrow> ptr list \<Rightarrow> nat \<Rightarrow> (string \<times> ptr) list \<Rightarrow> string \<Rightarrow> string \<Rightarrow>
       fault + (addr \<times> nat \<times> bool)"
where
  "COMap_diff h m newObj name =
     (case COMap_diff_loop (Suc h) m newObj name [] [] of
        Inl e \<Rightarrow> Inl e
      | Inr (h1, rm, rord) \<Rightarrow>
          (case COMap_diff_new h1 m newObj rm rord of
             Inl e \<Rightarrow> Inl e
           | Inr (h2, rm', rord') \<Rightarrow>
               Inr (h2, if length rm' = 0 then NULL else Ptr h (COMap rm' rord'))))"
| "COMap_diff_loop h [] newObj name rm rord = Inr (h, rm, rord)"
| "COMap_diff_loop h ((first, second) # rest) newObj name rm rord =
     (case (case COMap_findElement newObj (c_str first) of
              NULL \<Rightarrow> Inr (h, rm, rord)
            | Ptr _ obj \<Rightarrow>
                (case second of
                   NULL \<Rightarrow> Inr (h, rm, rord)
                 | Ptr _ n \<Rightarrow>
                     (case n of
                        COMap nm _ \<Rightarrow>
                          (case obj of
                             COMap om _ \<Rightarrow>
                               (case COMap_diff h nm om name of
                                  Inl e \<Rightarrow> Inl e
                                | Inr (h1, nv) \<Rightarrow>
                                    Inr (if nv \<noteq> NULL then rtn_append h1 rm rord first nv
                                         else (h1, rm, rord)))
                           | _ \<Rightarrow> Inl Undefined)
                      | COArray nv \<Rightarrow>
                          (case obj of
                             COArray ov \<Rightarrow>
                               (case COArray_diff h nv ov name of
                                  Inl e \<Rightarrow> Inl e
                                | Inr (h1, na) \<Rightarrow>
                                    Inr (if na \<noteq> NULL then rtn_append h1 rm rord first na
                                         else (h1, rm, rord)))
                           | _ \<Rightarrow> Inl Undefined)
                      | _ \<Rightarrow> appendTag h first obj rm rord n))) of
        Inl e \<Rightarrow> Inl e
      | Inr (h1, rm', rord') \<Rightarrow> COMap_diff_loop h1 rest newObj name rm' rord')"
| "COArray_diff h v u name =
     (case COArray_diff_loop (Suc h) v u 0 name [] of
        Inl e \<Rightarrow> Inl e
      | Inr (h1, rtn) \<Rightarrow> Inr (h1, if length rtn = 0 then NULL else Ptr h (COArray rtn)))"
| "COArray_diff_loop h v [] it name rtn = Inr (h, rtn)"
| "COArray_diff_loop h v (nt # u) it name rtn =
     (case (if isMap nt \<and> name \<noteq> None
               \<and> isString (COMap_findElement (map_data nt) (c_str (the name))) then
              (case COArray_diff_scan h v 0 (map_data nt)
                      (string_data (COMap_findElement (map_data nt) (c_str (the name)))) (the name) of
                 Inl e \<Rightarrow> Inl e
               | Inr (h1, it1, found) \<Rightarrow>
                   if found then
                     (case nt of
                        NULL \<Rightarrow> Inl Undefined
                      | Ptr _ obj \<Rightarrow>
                          (case copy_node (Suc h1) obj of
                             Inl e \<Rightarrow> Inl e
                           | Inr (h2, c) \<Rightarrow> Inr (h2, it1, rtn @ [Ptr h1 c])))
                   else Inr (h1, it1, rtn))
            else if it < length v then
              (case nt of
                 NULL \<Rightarrow> Inl Undefined
               | Ptr _ obj \<Rightarrow>
                   (case v ! it of
                      NULL \<Rightarrow> Inl Undefined
                    | Ptr _ n \<Rightarrow>
                        if CppON_type obj = CppON_type n then
                          (case n of
                             COMap nm _ \<Rightarrow>
                               (case obj of
                                  COMap om _ \<Rightarrow>
                                    (case COMap_diff h nm om None of
                                       Inl e \<Rightarrow> Inl e
                                     | Inr (h1, nv) \<Rightarrow>
                                         if nv \<noteq> NULL then
                                           (case copy_node (Suc h1) obj of
                                              Inl e \<Rightarrow> Inl e
                                            | Inr (h2, c) \<Rightarrow> Inr (h2, Suc it, rtn @ [Ptr h1 c]))
                                         else Inr (h1, Suc it, rtn))
                                | _ \<Rightarrow> Inl Undefined)
                           | COArray nv \<Rightarrow>
                               (case obj of
                                  COArray ov \<Rightarrow>
                                    (case COArray_diff h nv ov None of
                                       Inl e \<Rightarrow> Inl e
                                     | Inr (h1, na) \<Rightarrow>
                                         if na \<noteq> NULL then
                                           (case copy_node (Suc h1) obj of
                                              Inl e \<Rightarrow> Inl e
                                            | Inr (h2, c) \<Rightarrow> Inr (h2, Suc it, rtn @ [Ptr h1 c]))
                                         else Inr (h1, Suc it, rtn))
                                | _ \<Rightarrow> Inl Undefined)
                           | CONull \<Rightarrow> Inr (h, Suc it, rtn)
                           | _ \<Rightarrow>
                               if differs n obj then
                                 (case copy_node (Suc h) obj of
                                    Inl e \<Rightarrow> Inl e
                                  | Inr (h2, c) \<Rightarrow> Inr (h2, Suc it, rtn @ [Ptr h c]))
                               else Inr (h, Suc it, rtn))
                        else Inr (h, Suc it, rtn)))
            else Inr (h, it, rtn)) of
        Inl e \<Rightarrow> Inl e
      | Inr (h1, it1, rtn1) \<Rightarrow> COArray_diff_loop h1 v u it1 name rtn1)"
| "COArray_diff_scan h v it obj uS name =
     (if it < length v then
        (if isMap (v ! it) \<and> isString (COMap_findElement (map_data (v ! it)) (c_str name))
            \<and> c_str uS = c_str (string_data (COMap_findElement (map_data (v ! it)) (c_str name)))
         then
           (case COMap_diff h (map_data (v ! it)) obj (Some name) of
              Inl e \<Rightarrow> Inl e
            | Inr (h1, nv) \<Rightarrow>
                if nv \<noteq> NULL then Inr (h1, it, True)
                else COArray_diff_scan h1 v (Suc it) obj uS name)
         else COArray_diff_scan h v (Suc it) obj uS name)
      else Inr (h, it, False))"
  by pat_completeness auto

termination
  apply (relation "measures
     [\<lambda>x. case x of
             Inl (Inl (h, m, newObj, name)) \<Rightarrow> size_list (size_prod (\<lambda>x. 0) size) m
           | Inl (Inr (h, m, newObj, name, rm, rord)) \<Rightarrow> size_list (size_prod (\<lambda>x. 0) size) m
           | Inr (Inl (h, v, u, name)) \<Rightarrow> size_list size v
           | Inr (Inr (Inl (h, v, u, it, name, rtn))) \<Rightarrow> size_list size v
           | Inr (Inr (Inr (h, v, it, obj, uS, name))) \<Rightarrow> size_list size v,
      \<lambda>x. case x of
             Inl (Inl (h, m, newObj, name)) \<Rightarrow> Suc (length m)
           | Inl (Inr (h, m, newObj, name, rm, rord)) \<Rightarrow> length m
           | Inr (Inl (h, v, u, name)) \<Rightarrow> length u + 2
           | Inr (Inr (Inl (h, v, u, it, name, rtn))) \<Rightarrow> Suc (length u)
           | Inr (Inr (Inr (h, v, it, obj, uS, name))) \<Rightarrow> 0,
      \<lambda>x. case x of
             Inr (Inr (Inr (h, v, it, obj, uS, name))) \<Rightarrow> length v - it
           | _ \<Rightarrow> 0]")
  apply (auto dest: nth_node_size nth_map_size)
  done

declare COMap_diff.simps [simp del] COMap_diff_loop.simps [simp del] COArray_diff.simps [simp del]
  COArray_diff_loop.simps [simp del] COArray_diff_scan.simps [simp del]

text \<open>\<^verbatim>\<open>CppON *CppON::diff( CppON &newObj, const char *name )\<close>.\<close>

definition CppON_diff :: "addr \<Rightarrow> CppON \<Rightarrow> CppON \<Rightarrow> string option \<Rightarrow> fault + (addr \<times> ptr)" where
  "CppON_diff h this newObj name =
     (if CppON_type this = CppON_type newObj then
        (case this of
           COMap m _ \<Rightarrow> (case newObj of COMap m' _ \<Rightarrow> COMap_diff h m m' name | _ \<Rightarrow> Inr (h, NULL))
         | COArray v \<Rightarrow> (case newObj of COArray v' \<Rightarrow> COArray_diff h v v' name | _ \<Rightarrow> Inr (h, NULL))
         | COString _ \<Rightarrow> Inr (h, NULL)
         | CONull \<Rightarrow> Inr (h, NULL)
         | _ \<Rightarrow>
             if differs this newObj then
               (case copy_node (Suc h) newObj of
                  Inl e \<Rightarrow> Inl e
                | Inr (h1, c) \<Rightarrow> Inr (h1, Ptr h c))
             else Inr (h, NULL))
      else Inr (h, NULL))"

text \<open>
  Trees on which a key names its own entry and a value equals itself: no key holds a colon,
  a slash or a NUL, no string holds a NUL, no double is a NaN, the keys of a map differ, and
  no child pointer is null.
\<close>

definition plain_key :: "string \<Rightarrow> bool" where
  "plain_key k = (NUL \<notin> set k \<and> CHR '':'' \<notin> set k \<and> CHR ''/'' \<notin> set k)"

lemma entry_size:
  "e \<in> set m \<Longrightarrow> size (snd e) < Suc (size_list (size_prod (\<lambda>x. 0) size) m)"
  by (induction m) auto

lemma element_size: "p \<in> set v \<Longrightarrow> size p < Suc (size_list size v)"
  by (induction v) auto

function plain_tree :: "CppON \<Rightarrow> bool" and plain_ptr :: "ptr \<Rightarrow> bool" where
  "plain_tree (COInteger u d) = True"
| "plain_tree (CODouble p d) = (\<not> isnan d)"
| "plain_tree (COString s) = (NUL \<notin> set s)"
| "plain_tree CONull = True"
| "plain_tree (COBoolean b) = True"
| "plain_tree (COMap m ord) =
     (distinct (map fst m) \<and> list_all (\<lambda>e. plain_key (fst e) \<and> plain_ptr (snd e)) m)"
| "plain_tree (COArray v) = list_all plain_ptr v"
| "plain_ptr NULL = False"
| "plain_ptr (Ptr a n) = plain_tree n"
  by pat_completeness auto

termination
  apply (relation "measure (\<lambda>x. case x of Inl n \<Rightarrow> size n | Inr p \<Rightarrow> size p)")
     apply simp
    apply (simp add: entry_size)
   apply (simp add: element_size)
  apply simp
  done

text \<open>\<open>same_is_none c\<close>: the difference of \<open>c\<close> with itself is null.\<close>

definition same_is_none :: "CppON \<Rightarrow> bool" where
  "same_is_none c = (\<forall>h. \<exists>h'. CppON_diff h c c None = Inr (h', NULL))"


section \<open>Properties\<close>

subsection \<open>Machine arithmetic\<close>

lemma sint_word_of_int_in_range:
  "- (2 ^ (LENGTH('a::len) - 1)) \<le> k \<Longrightarrow> k < 2 ^ (LENGTH('a) - 1) \<Longrightarrow>
   sint (word_of_int k :: 'a word) = k"
  by (simp add: signed_of_int signed_take_bit_int_eq_self)

lemma uint_word_of_int_mod: "uint (word_of_int k :: 'a::len word) = k mod 2 ^ LENGTH('a)"
  by (simp add: unsigned_of_int take_bit_eq_mod)

lemma trunc_div_nonneg: "0 \<le> a \<Longrightarrow> 0 < b \<Longrightarrow> trunc_div a b = a div b"
  by (simp add: trunc_div_def)

lemma doOperation_signed:
  assumes "arith op (longValue d) (sint val) = Some r" "i64_ok r"
  shows "\<exists>d' rv. doOperation (Some False) d sz val op = Inr (d', rv) \<and> siz d' = siz d
           \<and> longValue d' = spec_saturate False (siz d) r"
proof (cases d)
  case (I8 w)
  then show ?thesis using assms
    by (auto simp: doOperation_def doOperation_store_def signed_op_def clamp_def
        spec_saturate_def sint_word_of_int_in_range)
next
  case (I16 w)
  then show ?thesis using assms
    by (auto simp: doOperation_def doOperation_store_def signed_op_def clamp_def
        spec_saturate_def sint_word_of_int_in_range)
next
  case (I32 w)
  then show ?thesis using assms
    by (auto simp: doOperation_def doOperation_store_def signed_op_def clamp_def
        spec_saturate_def sint_word_of_int_in_range)
next
  case (I64 w)
  then show ?thesis using assms
    by (auto simp: doOperation_def doOperation_store_def i64_ok_def spec_saturate_def
        sint_word_of_int_in_range)
qed

lemma unsigned_op_value:
  fixes a b :: "'a::len word"
  assumes "arith op (uint a) (uint b) = Some u"
  shows "\<exists>r. unsigned_op op a b = Inr r \<and> uint r = u mod 2 ^ LENGTH('a)"
proof (cases op)
  case CPPON_ADD
  then show ?thesis using assms by (auto simp: unsigned_op_def uint_word_ariths)
next
  case CPPON_SUBTRACT
  then show ?thesis using assms by (auto simp: unsigned_op_def uint_word_ariths)
next
  case CPPON_MULTIPLY
  then show ?thesis using assms by (auto simp: unsigned_op_def uint_word_ariths)
next
  case CPPON_DIVIDE
  with assms have b0: "uint b \<noteq> 0" and u: "u = trunc_div (uint a) (uint b)"
    by (auto split: if_splits)
  then have b: "b \<noteq> 0" by auto
  have "u = uint a div uint b" using u b0 by (simp add: trunc_div_nonneg order_less_le)
  moreover have "uint (a div b) = uint a div uint b" by (simp add: uint_div)
  moreover have "uint (a div b) < 2 ^ LENGTH('a)" by simp
  moreover have "0 \<le> uint (a div b)" by simp
  ultimately have "uint (a div b) = u mod 2 ^ LENGTH('a)" by simp
  then show ?thesis using CPPON_DIVIDE b
    by (simp add: unsigned_op_def)
qed

lemma promoted_op_value:
  assumes "arith op a b = Some u" "int_ok u"
  shows "promoted_op op a b = Inr u"
  using assms by (simp add: promoted_op_def)

lemma arith_of_shorts_fits_int:
  assumes "arith op a b = Some u" "0 \<le> a" "a < 65536" "0 \<le> b" "b < 65536"
    "op = CPPON_MULTIPLY \<longrightarrow> u < 2 ^ 31"
  shows "int_ok u"
proof (cases op)
  case CPPON_DIVIDE
  with assms have "u = a div b" "0 < b" by (auto simp: trunc_div_nonneg split: if_splits)
  moreover have "a div b \<le> a" using assms \<open>0 < b\<close>
    by (metis div_by_1 int_one_le_iff_zero_less zdiv_mono2 zero_less_one)
  moreover have "0 \<le> a div b" using assms \<open>0 < b\<close> by (simp add: pos_imp_zdiv_nonneg_iff)
  ultimately show ?thesis using assms by (simp add: int_ok_def)
next
  case CPPON_MULTIPLY
  with assms have "u = a * b" by simp
  then have "0 \<le> u" using assms by simp
  then show ?thesis using assms CPPON_MULTIPLY by (simp add: int_ok_def)
qed (use assms in \<open>auto simp: int_ok_def\<close>)

lemma doOperation_unsigned:
  assumes "arith op (unsignedValue d) (uint val mod 2 ^ (8 * siz d)) = Some u"
    and "siz d = 2 \<and> op = CPPON_MULTIPLY \<longrightarrow> u < 2 ^ 31"
  shows "\<exists>d' rv. doOperation (Some True) d sz val op = Inr (d', rv) \<and> siz d' = siz d
           \<and> unsignedValue d' = u mod 2 ^ (8 * siz d)"
proof (cases d)
  case (I8 w)
  have b: "uint (ucast val :: 8 word) = uint val mod 2 ^ 8"
    by (simp add: unsigned_ucast_eq take_bit_eq_mod)
  have a: "arith op (uint w) (uint val mod 2 ^ 8) = Some u" using assms I8 by simp
  have "uint w < 256" using uint_bounded[of w] by simp
  moreover have "uint val mod 2 ^ 8 < 256" by simp
  moreover have "op = CPPON_MULTIPLY \<longrightarrow> u < 2 ^ 31"
  proof
    assume "op = CPPON_MULTIPLY"
    with a have "u = uint w * (uint val mod 2 ^ 8)" by simp
    moreover have "uint w * (uint val mod 2 ^ 8) \<le> 255 * 255"
      using \<open>uint w < 256\<close> by (intro mult_mono) auto
    ultimately show "u < 2 ^ 31" by simp
  qed
  ultimately have "int_ok u" using arith_of_shorts_fits_int[OF a] by simp
  with a I8 b show ?thesis
    by (auto simp: doOperation_def doOperation_store_def promoted_op_value uint_word_of_int_mod)
next
  case (I16 w)
  have b: "uint (ucast val :: 16 word) = uint val mod 2 ^ 16"
    by (simp add: unsigned_ucast_eq take_bit_eq_mod)
  have a: "arith op (uint w) (uint val mod 2 ^ 16) = Some u" using assms I16 by simp
  have "uint w < 65536" using uint_bounded[of w] by simp
  moreover have "uint val mod 2 ^ 16 < 65536" by simp
  ultimately have "int_ok u" using arith_of_shorts_fits_int[OF a] assms(2) I16 by simp
  with a I16 b show ?thesis
    by (auto simp: doOperation_def doOperation_store_def promoted_op_value uint_word_of_int_mod)
next
  case (I32 w)
  have b: "uint (ucast val :: 32 word) = uint val mod 2 ^ 32"
    by (simp add: unsigned_ucast_eq take_bit_eq_mod)
  from assms I32 b obtain r where
    "unsigned_op op w (ucast val :: 32 word) = Inr r" "uint r = u mod 2 ^ 32"
    using unsigned_op_value[of op w "ucast val :: 32 word" u] by auto
  with I32 show ?thesis by (auto simp: doOperation_def doOperation_store_def)
next
  case (I64 w)
  have m: "uint val mod 2 ^ 64 = uint val" using uint_bounded[of val] by simp
  from assms I64 m obtain r where "unsigned_op op w val = Inr r" "uint r = u mod 2 ^ 64"
    using unsigned_op_value[of op w val u] by auto
  with I64 show ?thesis by (auto simp: doOperation_def doOperation_store_def)
qed

lemma saturating_example:
  "compound_assign CPPON_ADD (COInteger (Some False) (I8 127)) (c_int_lit 5)
     = Inr (COInteger (Some False) (I8 127), c_int_lit 127)"
  by (simp add: c_int_lit_def doOperation_def doOperation_store_def signed_op_def clamp_def
      i64_ok_def doOperation_return_def)

lemma CODouble_assign_inside_band:
  "CODouble_assign 2 (double_lit (312 / 100)) (double_lit (31274 / 10000)) = double_lit (312 / 100)"
  by code_simp

lemma CODouble_assign_outside_band:
  "CODouble_assign 2 (double_lit (312 / 100)) (double_lit (3135 / 1000)) = double_lit (314 / 100)"
  by code_simp

subsection \<open>Lookup after insertion\<close>

lemma c_str_id: "NUL \<notin> set s \<Longrightarrow> c_str s = s"
  by (auto simp: c_str_def)

lemma sint_minus1_32: "sint (- 1 :: 32 word) = - 1"
  by simp

lemma findElement_plain_segment:
  assumes "NUL \<notin> set s" "CHR '':'' \<notin> set s" "CHR ''/'' \<notin> set s"
  shows "COMap_findElement m s = first_match m s"
proof -
  have tw: "takeWhile (\<lambda>c. c \<noteq> NUL \<and> c \<noteq> CHR ''/'') s = s"
    using assms by auto
  have dw: "dropWhile (\<lambda>c. c \<noteq> NUL \<and> c \<noteq> CHR ''/'') s = []"
    using assms by auto
  have sp: "splitPath s = (s, [])"
    by (simp add: splitPath_def tw dw deref_def NUL_neq_slash)
  have si: "split_index s = (s, - 1, [])"
    using assms by (simp add: split_index_def)
  show ?thesis
    by (subst COMap_findElement.simps) (simp add: sp si deref_def)
qed

lemma string_less_prefix: "string_less xs (xs @ y # ys)"
  by (induction xs) auto

lemma c_str_cases: "c_str k = k \<or> (\<exists>rest. k = c_str k @ NUL # rest)"
proof (induction k)
  case Nil
  then show ?case by (simp add: c_str_def)
next
  case (Cons a k)
  then show ?case by (auto simp: c_str_def)
qed

lemma c_str_eq_less: "c_str k = key \<Longrightarrow> k \<noteq> key \<Longrightarrow> string_less key k"
  using c_str_cases[of k] string_less_prefix by metis

lemma first_match_insert:
  "key \<notin> fst ` set m \<Longrightarrow> NUL \<notin> set key \<Longrightarrow> first_match (map_insert key v m) key = v"
proof (induction m)
  case Nil
  then show ?case by simp
next
  case (Cons e m)
  obtain k p where e: "e = (k, p)" by (cases e)
  with Cons.prems have ne: "key \<noteq> k" by auto
  show ?case
  proof (cases "string_less key k")
    case True
    then show ?thesis using e ne by simp
  next
    case False
    then have "c_str k \<noteq> key" using c_str_eq_less[of k key] ne by auto
    then show ?thesis using e ne False Cons by (simp add: c_str_id)
  qed
qed

lemma first_match_store:
  "first_match (store_entries a n m) s = store_ptr a n (first_match m s)"
  by (induction m) (auto simp: store_entries_def)

lemma map_erase_keys: "key \<notin> fst ` set (map_erase key m)"
  by (auto simp: map_erase_def)

lemma map_find_None_keys: "map_find key m = None \<Longrightarrow> key \<notin> fst ` set m"
  by (simp add: map_find_def map_of_eq_None_iff)

lemma first_match_append_direct:
  assumes "NUL \<notin> set key" "append_direct m ord key v = (m', ord')"
  shows "first_match m' key = v"
  using assms
  by (auto simp: append_direct_def first_match_insert map_erase_keys map_find_None_keys
      split: option.splits)

lemma split_slash:
  assumes "CHR ''/'' \<in> set key"
  defines "pos \<equiv> length (takeWhile (\<lambda>c. c \<noteq> CHR ''/'') key)"
  shows "key = take pos key @ CHR ''/'' # drop (pos + 1) key" "CHR ''/'' \<notin> set (take pos key)"
proof -
  have t: "take pos key = takeWhile (\<lambda>c. c \<noteq> CHR ''/'') key"
    unfolding pos_def by (metis takeWhile_eq_take)
  have d: "dropWhile (\<lambda>c. c \<noteq> CHR ''/'') key \<noteq> []" using assms(1) by simp
  then have hd: "hd (dropWhile (\<lambda>c. c \<noteq> CHR ''/'') key) = CHR ''/''"
    using hd_dropWhile[of "\<lambda>c. c \<noteq> CHR ''/''" key] by auto
  have "drop pos key = dropWhile (\<lambda>c. c \<noteq> CHR ''/'') key"
    unfolding pos_def by (metis dropWhile_eq_drop)
  then have "drop pos key = CHR ''/'' # drop (pos + 1) key"
    using d hd by (metis Cons_nth_drop_Suc Suc_eq_plus1 drop_eq_Nil hd_drop_conv_nth linorder_not_less)
  then show "key = take pos key @ CHR ''/'' # drop (pos + 1) key"
    by (metis append_take_drop_id)
  show "CHR ''/'' \<notin> set (take pos key)"
    unfolding t by (auto dest: set_takeWhileD)
qed

lemma findElement_Nil: "COMap_findElement [] str = NULL"
  by (subst COMap_findElement.simps) (simp split: prod.splits)

lemma path_open_Nil: "path_open [] key"
  by (subst path_open.simps) (simp add: findElement_Nil Let_def)

lemma splitPath_slash:
  assumes "NUL \<notin> set s" "CHR ''/'' \<notin> set s"
  shows "splitPath (s @ CHR ''/'' # rest) = (s, rest)"
proof -
  have all: "\<And>x. x \<in> set s \<Longrightarrow> x \<noteq> NUL \<and> x \<noteq> CHR ''/''"
    using assms by auto
  have "takeWhile (\<lambda>c. c \<noteq> NUL \<and> c \<noteq> CHR ''/'') (s @ CHR ''/'' # rest) = s"
    by (simp add: takeWhile_append2 all)
  moreover have "dropWhile (\<lambda>c. c \<noteq> NUL \<and> c \<noteq> CHR ''/'') (s @ CHR ''/'' # rest) = CHR ''/'' # rest"
    by (simp add: dropWhile_append2 all)
  ultimately show ?thesis by (simp add: splitPath_def deref_def)
qed

lemma findElement_descend:
  assumes "NUL \<notin> set s" "CHR ''/'' \<notin> set s" "CHR '':'' \<notin> set s"
    and "first_match m s = Ptr a (COMap cm co)" "deref rest \<noteq> NUL"
  shows "COMap_findElement m (s @ CHR ''/'' # rest) = COMap_findElement cm rest"
proof -
  have si: "split_index s = (s, - 1, [])"
    using assms by (simp add: split_index_def)
  show ?thesis
    by (subst COMap_findElement.simps) (simp add: splitPath_slash assms si)
qed

lemma plain_path_rest:
  assumes "plain_path (s @ CHR ''/'' # rest)"
  shows "plain_path rest" "deref rest \<noteq> NUL" "NUL \<notin> set s" "CHR '':'' \<notin> set s"
proof -
  from assms have "rest \<noteq> []" by (auto simp: plain_path_def)
  with assms show "plain_path rest" by (auto simp: plain_path_def)
  from assms \<open>rest \<noteq> []\<close> show "deref rest \<noteq> NUL"
    by (cases rest) (auto simp: plain_path_def deref_def)
  from assms show "NUL \<notin> set s" "CHR '':'' \<notin> set s" by (auto simp: plain_path_def)
qed

lemma COMap_append_absent:
  assumes "CHR ''/'' \<in> set key"
    and "COMap_findElement m (c_str (take (length (takeWhile (\<lambda>c. c \<noteq> CHR ''/'') key)) key)) = NULL"
    and "append_direct m ord (take (length (takeWhile (\<lambda>c. c \<noteq> CHR ''/'') key)) key)
           (Ptr h (COMap [] [])) = (m1, ord1)"
    and "COMap_append (Suc h) [] [] (drop (Suc (length (takeWhile (\<lambda>c. c \<noteq> CHR ''/'') key))) key) n
           = (h2, rtn, cm, co)"
  shows "COMap_append h m ord key n = (h2, rtn, store_entries h (COMap cm co) m1, ord1)"
  by (subst COMap_append.simps) (simp add: assms Let_def)

lemma COMap_append_into_map:
  assumes "CHR ''/'' \<in> set key"
    and "COMap_findElement m (c_str (take (length (takeWhile (\<lambda>c. c \<noteq> CHR ''/'') key)) key))
           = Ptr a (COMap fm fo)"
    and "COMap_append h fm fo (drop (Suc (length (takeWhile (\<lambda>c. c \<noteq> CHR ''/'') key))) key) n
           = (h2, rtn, cm, co)"
  shows "COMap_append h m ord key n = (h2, rtn, store_entries a (COMap cm co) m, ord)"
  by (subst COMap_append.simps) (simp add: assms Let_def)

lemma append_then_find:
  assumes "plain_path key" "path_open m key"
  shows "\<exists>h' m' ord'. COMap_append h m ord key v = (h', 0, m', ord')
           \<and> COMap_findElement m' key = v"
  using assms
proof (induction "length key" arbitrary: h m ord key rule: less_induct)
  case less
  show ?case
  proof (cases "CHR ''/'' \<in> set key")
    case False
    obtain m' ord' where ad: "append_direct m ord key v = (m', ord')" by fastforce
    have nn: "NUL \<notin> set key" "CHR '':'' \<notin> set key"
      using less.prems(1) by (auto simp: plain_path_def)
    have "COMap_append h m ord key v = (h, 0, m', ord')"
      by (subst COMap_append.simps) (simp add: False ad)
    moreover have "COMap_findElement m' key = first_match m' key"
      using findElement_plain_segment nn False by simp
    moreover have "first_match m' key = v"
      using first_match_append_direct[OF nn(1) ad] .
    ultimately show ?thesis by auto
  next
    case True
    define pos where "pos = length (takeWhile (\<lambda>c. c \<noteq> CHR ''/'') key)"
    define s where "s = take pos key"
    define key' where "key' = drop (Suc pos) key"
    define found where "found = COMap_findElement m (c_str s)"
    have key: "key = s @ CHR ''/'' # key'" and ns: "CHR ''/'' \<notin> set s"
      using split_slash[OF True] unfolding pos_def s_def key'_def by auto
    have pp: "plain_path (s @ CHR ''/'' # key')" using less.prems(1) key by simp
    note rest = plain_path_rest[OF pp]
    have "length (s @ CHR ''/'' # key') = Suc (length s + length key')" by simp
    then have len: "length key' < length key" using key by simp
    have cs: "c_str s = s" using rest(3) by (rule c_str_id)
    have found_eq: "found = first_match m s"
      unfolding found_def cs using findElement_plain_segment rest ns by simp
    have po: "found = NULL \<or> (isMap found \<and> path_open (map_data found) key')"
      using less.prems(2) True
      by (subst (asm) path_open.simps)
        (simp add: Let_def pos_def s_def key'_def found_def split: if_splits)
    show ?thesis
    proof (cases "found = NULL")
      case fn: True
      obtain m1 ord1 where ad: "append_direct m ord s (Ptr h (COMap [] [])) = (m1, ord1)"
        by fastforce
      from less.hyps[OF len rest(1) path_open_Nil, of "Suc h" "[]"]
      obtain h2 cm co where rc: "COMap_append (Suc h) [] [] key' v = (h2, 0, cm, co)"
        and fc: "COMap_findElement cm key' = v" by blast
      have res: "COMap_append h m ord key v = (h2, 0, store_entries h (COMap cm co) m1, ord1)"
        using COMap_append_absent[OF True] fn ad rc
        unfolding found_def s_def key'_def pos_def by blast
      have "first_match m1 s = Ptr h (COMap [] [])"
        using first_match_append_direct[OF rest(3) ad] .
      then have "first_match (store_entries h (COMap cm co) m1) s = Ptr h (COMap cm co)"
        by (simp add: first_match_store)
      then have "COMap_findElement (store_entries h (COMap cm co) m1) key = COMap_findElement cm key'"
        unfolding key using findElement_descend rest ns by simp
      with res fc show ?thesis by auto
    next
      case fnn: False
      with po have im: "isMap found" and po': "path_open (map_data found) key'" by auto
      then obtain a fm fo where f: "found = Ptr a (COMap fm fo)"
        by (cases found rule: isMap.cases) auto
      from less.hyps[OF len rest(1), of fm h fo] po' f
      obtain h2 cm co where rc: "COMap_append h fm fo key' v = (h2, 0, cm, co)"
        and fc: "COMap_findElement cm key' = v" by auto
      have res: "COMap_append h m ord key v = (h2, 0, store_entries a (COMap cm co) m, ord)"
        using COMap_append_into_map[OF True] f rc
        unfolding found_def s_def key'_def pos_def by blast
      have "first_match m s = Ptr a (COMap fm fo)" using found_eq f by simp
      then have "first_match (store_entries a (COMap cm co) m) s = Ptr a (COMap cm co)"
        by (simp add: first_match_store)
      then have "COMap_findElement (store_entries a (COMap cm co) m) key = COMap_findElement cm key'"
        unfolding key using findElement_descend rest ns by simp
      with res fc show ?thesis by auto
    qed
  qed
qed

lemma set_tl_subset: "x \<in> set (tl xs) \<Longrightarrow> x \<in> set xs"
  by (cases xs) auto

lemma splitPath_subset:
  "splitPath path = (s, rest) \<Longrightarrow> set s \<subseteq> set path \<and> set rest \<subseteq> set path"
  by (auto simp: splitPath_def Let_def dest: set_takeWhileD set_dropWhileD set_tl_subset
      split: if_splits)

lemma findElement_dangling:
  "CHR '':'' \<notin> set path \<Longrightarrow> dangling m path \<Longrightarrow> COMap_findElement m path = NULL"
proof (induction m path rule: dangling.induct)
  case (1 m path)
  obtain s rest where sp: "splitPath path = (s, rest)" by fastforce
  from splitPath_subset[OF sp] "1.prems"(1)
  have ns: "CHR '':'' \<notin> set s" and nr: "CHR '':'' \<notin> set rest" by auto
  have si: "split_index s = (s, - 1, [])" using ns by (simp add: split_index_def)
  from "1.prems"(2) have d: "first_match m s = NULL \<or>
      (isMap (first_match m s) \<and> deref rest \<noteq> NUL \<and> dangling (map_data (first_match m s)) rest)"
    by (subst (asm) dangling.simps) (simp add: sp Let_def split: if_splits)
  show ?case
  proof (cases "first_match m s = NULL")
    case True
    then show ?thesis by (subst COMap_findElement.simps) (simp add: sp si)
  next
    case False
    with d have im: "isMap (first_match m s)" and dr: "deref rest \<noteq> NUL"
      and dd: "dangling (map_data (first_match m s)) rest" by auto
    from "1.IH"[OF sp[symmetric] refl False _ nr dd] im dr
    have "COMap_findElement (map_data (first_match m s)) rest = NULL" by simp
    then show ?thesis using im dr by (subst COMap_findElement.simps) (simp add: sp si)
  qed
qed

subsection \<open>The key vector of a map\<close>

lemma map_insert_keys: "fst ` set (map_insert key n m) = insert key (fst ` set m)"
  by (induction key n m rule: map_insert.induct) auto

lemma map_insert_distinct:
  "key \<notin> fst ` set m \<Longrightarrow> distinct (map fst m) \<Longrightarrow> distinct (map fst (map_insert key n m))"
proof (induction key n m rule: map_insert.induct)
  case (1 key n)
  then show ?case by simp
next
  case (2 key n k p m)
  have "fst ` set (map_insert key n m) = insert key (fst ` set m)" by (rule map_insert_keys)
  then show ?case using 2 by auto
qed

lemma map_erase_keys_eq: "fst ` set (map_erase key m) = fst ` set m - {key}"
  by (auto simp: map_erase_def)

lemma map_erase_distinct: "distinct (map fst m) \<Longrightarrow> distinct (map fst (map_erase key m))"
  by (simp add: map_erase_def distinct_map_filter)

lemma map_find_Some_keys: "map_find key m = Some p \<Longrightarrow> key \<in> fst ` set m"
  by (auto simp: map_find_def dest: map_of_SomeD intro: rev_image_eqI)

lemma filter_absent: "x \<notin> set xs \<Longrightarrow> filter (\<lambda>k. k \<noteq> x) xs = xs"
  by (induction xs) auto

lemma remove1_is_filter: "distinct xs \<Longrightarrow> remove1 x xs = filter (\<lambda>k. k \<noteq> x) xs"
  by (induction xs) (auto simp: filter_absent)

lemma append_direct_invariant:
  assumes "map_invariant m ord" "append_direct m ord key n = (m', ord')"
  shows "map_invariant m' ord'" "ord' = filter (\<lambda>k. k \<noteq> key) ord @ [key]"
proof -
  show "ord' = filter (\<lambda>k. k \<noteq> key) ord @ [key]"
  proof (cases "map_find key m")
    case None
    then have "key \<notin> set ord" using assms(1) map_find_None_keys by (simp add: map_invariant_def)
    then show ?thesis using assms(2) None by (simp add: append_direct_def filter_absent)
  next
    case (Some p)
    then show ?thesis using assms by (simp add: append_direct_def map_invariant_def remove1_is_filter)
  qed
  then have o: "distinct ord'" "set ord' = insert key (set ord - {key})"
    using assms(1) by (auto simp: map_invariant_def)
  show "map_invariant m' ord'"
  proof (cases "map_find key m")
    case None
    then have m': "m' = map_insert key n m" using assms(2) by (simp add: append_direct_def)
    show ?thesis using o assms(1) map_find_None_keys[OF None] unfolding m' map_invariant_def
      by (auto simp: map_insert_keys map_insert_distinct)
  next
    case (Some p)
    then have m': "m' = map_insert key n (map_erase key m)"
      using assms(2) by (simp add: append_direct_def)
    show ?thesis using o assms(1) map_erase_keys[of key m] unfolding m' map_invariant_def
      by (auto simp: map_insert_keys map_insert_distinct map_erase_keys_eq map_erase_distinct)
  qed
qed

lemma store_entries_keys [simp]: "map fst (store_entries a n m) = map fst m"
  by (simp add: store_entries_def comp_def)

lemma map_invariant_store:
  "map_invariant m ord \<Longrightarrow> map_invariant (store_entries a n m) ord"
proof -
  assume a: "map_invariant m ord"
  have "fst ` set (store_entries a n m) = fst ` set m"
    by (metis set_map store_entries_keys)
  then show ?thesis using a by (simp add: map_invariant_def)
qed

lemma COMap_append_slash_shape:
  assumes "CHR ''/'' \<in> set key" "COMap_append h m ord key n = (h', rtn, m', ord')"
  shows "\<exists>m1 ord1 s p.
           ((m1, ord1) = (m, ord) \<or> append_direct m ord s p = (m1, ord1))
           \<and> ord' = ord1 \<and> (m' = m1 \<or> (\<exists>a x. m' = store_entries a x m1))"
proof -
  define s where "s = take (length (takeWhile (\<lambda>c. c \<noteq> CHR ''/'') key)) key"
  define found where "found = COMap_findElement m (c_str s)"
  obtain m1 ord1 where m1:
    "(if found = NULL then append_direct m ord s (Ptr h (COMap [] [])) else (m, ord)) = (m1, ord1)"
    by fastforce
  have "ord' = ord1 \<and> (m' = m1 \<or> (\<exists>a x. m' = store_entries a x m1))"
    using assms m1
    by (subst (asm) COMap_append.simps)
      (auto simp: Let_def s_def[symmetric] found_def[symmetric] split: prod.splits if_splits)
  moreover have "(m1, ord1) = (m, ord) \<or> append_direct m ord s (Ptr h (COMap [] [])) = (m1, ord1)"
    using m1 by (auto split: if_splits)
  ultimately show ?thesis by blast
qed

lemma COMap_append_invariant:
  assumes "map_invariant m ord" "COMap_append h m ord key n = (h', rtn, m', ord')"
  shows "map_invariant m' ord'"
proof (cases "CHR ''/'' \<in> set key")
  case False
  then obtain m1 ord1 where "append_direct m ord key n = (m1, ord1)" "m' = m1" "ord' = ord1"
    using assms(2) by (subst (asm) COMap_append.simps) (auto split: prod.splits)
  then show ?thesis using append_direct_invariant(1)[OF assms(1)] by simp
next
  case True
  from COMap_append_slash_shape[OF True assms(2)]
  obtain m1 ord1 s p where
    1: "(m1, ord1) = (m, ord) \<or> append_direct m ord s p = (m1, ord1)"
    and 2: "ord' = ord1" "m' = m1 \<or> (\<exists>a x. m' = store_entries a x m1)" by blast
  from 1 have "map_invariant m1 ord1"
    using assms(1) append_direct_invariant(1)[OF assms(1)] by auto
  then show ?thesis using 2 map_invariant_store by auto
qed

lemma COMap_removeVal_invariant:
  assumes "map_invariant m ord" "COMap_removeVal m ord key = (m', ord')"
  shows "map_invariant m' ord'" "ord' = filter (\<lambda>k. k \<noteq> key) ord"
    "key \<notin> set ord'" "key \<notin> fst ` set m'"
proof -
  show o: "ord' = filter (\<lambda>k. k \<noteq> key) ord"
  proof (cases "map_find key m")
    case None
    then have "key \<notin> set ord" using assms(1) map_find_None_keys by (simp add: map_invariant_def)
    then show ?thesis using assms(2) None by (simp add: COMap_removeVal_def filter_absent)
  next
    case (Some p)
    then show ?thesis using assms
      by (simp add: COMap_removeVal_def map_invariant_def remove1_is_filter)
  qed
  then show k: "key \<notin> set ord'" by simp
  show inv: "map_invariant m' ord'"
  proof (cases "map_find key m")
    case None
    then have "m' = m" "ord' = ord" using assms(2) by (simp_all add: COMap_removeVal_def)
    then show ?thesis using assms(1) by simp
  next
    case (Some p)
    then have "m' = map_erase key m" using assms(2) by (simp add: COMap_removeVal_def)
    then show ?thesis using assms(1) o
      by (auto simp: map_invariant_def map_erase_keys_eq map_erase_distinct)
  qed
  then show "key \<notin> fst ` set m'" using k by (simp add: map_invariant_def)
qed

lemma apply_map_op_invariant:
  assumes "map_invariant m ord" "apply_map_op (h, m, ord) op = (h', m', ord')"
  shows "map_invariant m' ord'"
proof (cases op)
  case (Append key n)
  then show ?thesis using assms COMap_append_invariant[OF assms(1)]
    by (auto split: prod.splits)
next
  case (Remove key)
  then show ?thesis using assms COMap_removeVal_invariant(1)[OF assms(1)]
    by (auto split: prod.splits)
qed

lemma apply_map_op_order:
  assumes "map_invariant m ord" "direct_op op" "apply_map_op (h, m, ord) op = (h', m', ord')"
  shows "ord' = spec_order_step ord op"
proof (cases op)
  case (Append key n)
  with assms(2) have ns: "CHR ''/'' \<notin> set key" by simp
  obtain m1 ord1 where ad: "append_direct m ord key n = (m1, ord1)" by fastforce
  have "COMap_append h m ord key n = (h, 0, m1, ord1)"
    by (subst COMap_append.simps) (simp add: ns ad)
  then have "ord' = ord1" using assms(3) Append by simp
  then show ?thesis using append_direct_invariant(2)[OF assms(1) ad] Append by simp
next
  case (Remove key)
  then show ?thesis using assms COMap_removeVal_invariant(2)[OF assms(1)]
    by (auto split: prod.splits)
qed

lemma run_map_ops_invariant:
  "map_invariant m ord \<Longrightarrow> run_map_ops (h, m, ord) ops = (h', m', ord') \<Longrightarrow> map_invariant m' ord'"
proof (induction ops arbitrary: h m ord)
  case Nil
  then show ?case by (simp add: run_map_ops_def)
next
  case (Cons op ops)
  obtain h1 m1 ord1 where 1: "apply_map_op (h, m, ord) op = (h1, m1, ord1)"
    by (metis prod_cases3)
  have "map_invariant m1 ord1" using apply_map_op_invariant[OF Cons.prems(1) 1] .
  moreover have "run_map_ops (h1, m1, ord1) ops = (h', m', ord')"
    using Cons.prems(2) 1 by (simp add: run_map_ops_def)
  ultimately show ?case using Cons.IH by blast
qed

lemma run_map_ops_order:
  "map_invariant m ord \<Longrightarrow> list_all direct_op ops \<Longrightarrow>
   run_map_ops (h, m, ord) ops = (h', m', ord') \<Longrightarrow> ord' = spec_order ord ops"
proof (induction ops arbitrary: h m ord)
  case Nil
  then show ?case by (simp add: run_map_ops_def spec_order_def)
next
  case (Cons op ops)
  obtain h1 m1 ord1 where 1: "apply_map_op (h, m, ord) op = (h1, m1, ord1)"
    by (metis prod_cases3)
  have d: "direct_op op" "list_all direct_op ops" using Cons.prems(2) by simp_all
  have inv: "map_invariant m1 ord1" using apply_map_op_invariant[OF Cons.prems(1) 1] .
  have o: "ord1 = spec_order_step ord op" using apply_map_op_order[OF Cons.prems(1) d(1) 1] .
  have "run_map_ops (h1, m1, ord1) ops = (h', m', ord')"
    using Cons.prems(3) 1 by (simp add: run_map_ops_def)
  from Cons.IH[OF inv d(2) this] show ?case using o by (simp add: spec_order_def)
qed

lemma join_commas_Cons: "join_commas (p # ps) = p @ concat (map (\<lambda>q. '','' @ q) ps)"
  by (induction ps arbitrary: p) auto

lemma COMap_compact_loop_rest:
  "COMap_compact_loop m False ks = Inr body \<Longrightarrow>
   list_all (\<lambda>k. map_entry_json m k \<noteq> None) ks
   \<and> body = concat (map (\<lambda>k. '','' @ the (map_entry_json m k)) ks)"
proof (induction ks arbitrary: body)
  case Nil
  then show ?case by (simp add: toCompactJsonString.simps)
next
  case (Cons k ks)
  from Cons.prems obtain a n sptr rest where
    f: "map_find k m = Some (Ptr a n)" and s: "toCompactJsonString n = Inr sptr"
    and r: "COMap_compact_loop m False ks = Inr rest"
    and b: "body = '','' @ [CHR 0x22] @ c_str k @ [CHR 0x22, CHR '':''] @ sptr @ rest"
    by (auto simp: toCompactJsonString.simps split: option.splits ptr.splits sum.splits)
  have e: "map_entry_json m k = Some ([CHR 0x22] @ c_str k @ [CHR 0x22, CHR '':''] @ sptr)"
    using f s by (simp add: map_entry_json_def)
  from Cons.IH[OF r] e b show ?case by simp
qed

lemma COMap_compact_structure:
  assumes "toCompactJsonString (COMap m ord) = Inr out"
  shows "list_all (\<lambda>k. map_entry_json m k \<noteq> None) ord"
    "out = ''{'' @ join_commas (map (\<lambda>k. the (map_entry_json m k)) ord) @ ''}''"
proof -
  from assms obtain body where l: "COMap_compact_loop m True ord = Inr body"
    and o: "out = ''{'' @ body @ ''}''"
    by (auto simp: toCompactJsonString.simps split: sum.splits)
  have "list_all (\<lambda>k. map_entry_json m k \<noteq> None) ord
        \<and> body = join_commas (map (\<lambda>k. the (map_entry_json m k)) ord)"
  proof (cases ord)
    case Nil
    then show ?thesis using l by (simp add: toCompactJsonString.simps)
  next
    case (Cons k ks)
    from l[unfolded Cons] obtain a n sptr rest where
      f: "map_find k m = Some (Ptr a n)" and s: "toCompactJsonString n = Inr sptr"
      and r: "COMap_compact_loop m False ks = Inr rest"
      and b: "body = [CHR 0x22] @ c_str k @ [CHR 0x22, CHR '':''] @ sptr @ rest"
      by (auto simp: toCompactJsonString.simps split: option.splits ptr.splits sum.splits)
    have e: "map_entry_json m k = Some ([CHR 0x22] @ c_str k @ [CHR 0x22, CHR '':''] @ sptr)"
      using f s by (simp add: map_entry_json_def)
    from COMap_compact_loop_rest[OF r] e b Cons show ?thesis
      by (simp add: join_commas_Cons comp_def)
  qed
  then show "list_all (\<lambda>k. map_entry_json m k \<noteq> None) ord"
    "out = ''{'' @ join_commas (map (\<lambda>k. the (map_entry_json m k)) ord) @ ''}''"
    using o by simp_all
qed

subsection \<open>Net-strings\<close>

lemma decimal_0: "decimal 0 = ''0''"
  by (simp add: decimal.simps digit_char_def)

lemma toNetString_shape:
  assumes "toNetString n = Inr out"
  shows "\<exists>payload. out = decimal (int (length payload)) @ '':'' @ payload @ [spec_tag n]"
proof -
  have null: "\<exists>payload. ''0:~'' = CppON_toNetString payload CHR ''~''"
    by (rule exI[of _ "[]"]) (simp add: CppON_toNetString_def decimal_0)
  have "\<exists>payload. out = CppON_toNetString payload (spec_tag n)"
  proof (cases n)
    case CONull
    then show ?thesis using assms null by (simp add: toNetString.simps)
  qed (use assms in \<open>auto simp: toNetString.simps split: sum.splits\<close>)
  then show ?thesis by (simp add: CppON_toNetString_def)
qed

lemma COMap_toNetString_loop_structure:
  "COMap_toNetString_loop m ks = Inr rt \<Longrightarrow>
   list_all (\<lambda>k. map_entry_net m k \<noteq> None) ks
   \<and> rt = concat (map (\<lambda>k. the (map_entry_net m k)) ks)"
proof (induction ks arbitrary: rt)
  case Nil
  then show ?case by (simp add: toNetString.simps)
next
  case (Cons k ks)
  from Cons.prems obtain a n sptr rest where
    f: "map_find k m = Some (Ptr a n)" and s: "toNetString n = Inr sptr"
    and r: "COMap_toNetString_loop m ks = Inr rest"
    and b: "rt = CppON_toNetString (c_str k) CHR '','' @ sptr @ rest"
    by (auto simp: toNetString.simps split: option.splits ptr.splits sum.splits)
  have e: "map_entry_net m k = Some (CppON_toNetString (c_str k) CHR '','' @ sptr)"
    using f s by (simp add: map_entry_net_def)
  from Cons.IH[OF r] e b show ?case by simp
qed

lemma COArray_toNetString_loop_structure:
  "COArray_toNetString_loop v = Inr rt \<Longrightarrow>
   list_all (\<lambda>p. array_element_net p \<noteq> None) v
   \<and> rt = concat (map (\<lambda>p. the (array_element_net p)) v)"
proof (induction v arbitrary: rt)
  case Nil
  then show ?case by (simp add: toNetString.simps)
next
  case (Cons p v)
  from Cons.prems obtain a n where p: "p = Ptr a n"
    by (cases p) (auto simp: toNetString.simps)
  from Cons.prems p obtain sptr rest where
    s: "(case n of CONull \<Rightarrow> Inr [] | _ \<Rightarrow> toNetString n) = Inr sptr"
    and r: "COArray_toNetString_loop v = Inr rest"
    and b: "rt = sptr @ rest"
    by (auto simp: toNetString.simps split: sum.splits)
  have e: "array_element_net p = Some sptr"
    using s p by (cases n) (auto simp: array_element_net_def)
  from Cons.IH[OF r] e b show ?case by simp
qed

lemma COMap_toNetString_structure:
  assumes "toNetString (COMap m ord) = Inr out"
  shows "list_all (\<lambda>k. map_entry_net m k \<noteq> None) ord
    \<and> out = CppON_toNetString (c_str (concat (map (\<lambda>k. the (map_entry_net m k)) ord))) CHR ''}''"
proof -
  from assms obtain rt where "COMap_toNetString_loop m ord = Inr rt"
    "out = CppON_toNetString (c_str rt) CHR ''}''"
    by (auto simp: toNetString.simps split: sum.splits)
  then show ?thesis using COMap_toNetString_loop_structure by blast
qed

lemma COArray_toNetString_structure:
  assumes "toNetString (COArray v) = Inr out"
  shows "list_all (\<lambda>p. array_element_net p \<noteq> None) v
    \<and> out = CppON_toNetString (c_str (concat (map (\<lambda>p. the (array_element_net p)) v))) CHR '']''"
proof -
  from assms obtain rt where "COArray_toNetString_loop v = Inr rt"
    "out = CppON_toNetString (c_str rt) CHR '']''"
    by (auto simp: toNetString.simps split: sum.splits)
  then show ?thesis using COArray_toNetString_loop_structure by blast
qed


lemma renderable_toNetString:
  "(renderable n \<longrightarrow> (\<exists>out. toNetString n = Inr out))"
  "(renderable_entries m ks \<longrightarrow> (\<exists>rt. COMap_toNetString_loop m ks = Inr rt))"
  "(renderable_elements v \<longrightarrow> (\<exists>rt. COArray_toNetString_loop v = Inr rt))"
proof (induction n and m ks and v rule: renderable_renderable_entries_renderable_elements.induct)
  case (9 m k ks)
  show ?case
  proof
    assume r: "renderable_entries m (k # ks)"
    then obtain a n where f: "map_find k m = Some (Ptr a n)" and rn: "renderable n"
      and rk: "renderable_entries m ks"
      by (auto split: option.splits ptr.splits if_splits)
    from "9.IH"(1)[OF f refl] rn obtain out where o: "toNetString n = Inr out" by auto
    from "9.IH"(2)[OF f refl rn] rk obtain rt where "COMap_toNetString_loop m ks = Inr rt" by auto
    with f o show "\<exists>rt. COMap_toNetString_loop m (k # ks) = Inr rt"
      by (simp add: toNetString.simps)
  qed
next
  case (12 a n v)
  show ?case
  proof
    assume r: "renderable_elements (Ptr a n # v)"
    then have rn: "renderable n" and rv: "renderable_elements v" by (auto split: if_splits)
    from "12.IH"(1) rn obtain out where o: "toNetString n = Inr out" by auto
    from "12.IH"(2)[OF rn] rv obtain rt where "COArray_toNetString_loop v = Inr rt" by auto
    with o show "\<exists>rt. COArray_toNetString_loop (Ptr a n # v) = Inr rt"
      by (cases n) (simp_all add: toNetString.simps)
  qed
qed (auto simp: toNetString.simps)

subsection \<open>Inputs that open no value\<close>

lemma GetObj_exit:
  assumes "dropWhile blank s \<noteq> []" "\<not> value_start (deref (dropWhile blank s))"
  shows "GetObj (Suc n) h (Some s) = Inl ProcessExit"
proof -
  define ch where "ch = deref (dropWhile blank s)"
  have a: "CHR ''{'' \<noteq> ch" "CHR ''['' \<noteq> ch" "CHR 0x22 \<noteq> ch" "CHR ''-'' \<noteq> ch" "CHR ''+'' \<noteq> ch"
    using assms(2) by (auto simp: value_start_def ch_def)
  have b: "\<not> is_true ch nc" "\<not> is_false ch nc" for nc
    using assms(2) by (auto simp: value_start_def ch_def is_true_def is_false_def)
  have c: "\<not> is_digit ch"
    using assms(2) by (auto simp: value_start_def ch_def is_digit_def)
  have d: "peek (advance (Some (dropWhile blank s)) 1) 0 = Inr (deref (tl (dropWhile blank s)))"
    using assms(1) by (cases "dropWhile blank s"; cases "tl (dropWhile blank s)")
      (auto simp: peek_def advance_def deref_def)
  have "GetObj_body (obj_map_loop n) (obj_array_loop n) h (Some s) = Inl ProcessExit"
    unfolding GetObj_body_def DumpWhiteSpace_def and_then_def
    using a b c d by (simp add: ch_def[symmetric] Let_def)
  then show ?thesis by simp
qed

lemma GetObj_past_end:
  assumes "dropWhile blank s = []"
  shows "GetObj (Suc n) h (Some s) = Inl Undefined"
proof -
  have d: "peek (advance (Some []) 1) 0 = Inl Undefined"
    by (simp add: peek_def advance_def)
  have e: "\<not> is_digit NUL"
    by (simp add: is_digit_def NUL_def)
  have "GetObj_body (obj_map_loop n) (obj_array_loop n) h (Some s) = Inl Undefined"
    unfolding GetObj_body_def DumpWhiteSpace_def and_then_def
    using d e by (simp add: assms Let_def deref_def NUL_def)
  then show ?thesis by simp
qed

lemma parseJson_blank:
  assumes "dropWhile json_blank (c_str s) = []"
  shows "parseJson n h (Some s) = Inr NULL"
proof -
  have d: "deref (dropWhile json_blank (c_str s)) = NUL"
    by (simp only: assms deref_def list.case)
  have nd: "\<not> is_digit NUL"
    by (simp add: is_digit_def NUL_def)
  show ?thesis
    by (simp add: parseJson_def Let_def d nd)
qed

lemma c_str_no_NUL: "NUL \<notin> set (c_str s)"
  by (auto simp: c_str_def dest: set_takeWhileD)

lemma parseJson_GetObj:
  assumes "dropWhile json_blank (c_str s) \<noteq> []"
    and "\<not> is_digit (deref (dropWhile json_blank (c_str s)))"
  shows "parseJson n h (Some s)
           = and_then (GetObj n h (Some (dropWhile json_blank (c_str s)))) (\<lambda>(_, base, _). Inr base)"
proof -
  define s' where "s' = dropWhile json_blank (c_str s)"
  have "set s' \<subseteq> set (c_str s)"
    unfolding s'_def by (auto dest: set_dropWhileD)
  then have "NUL \<notin> set s'" using c_str_no_NUL by blast
  then have "deref s' \<noteq> NUL" using assms(1) by (cases s') (auto simp: deref_def s'_def)
  then show ?thesis
    using assms(2) by (simp add: parseJson_def Let_def s'_def[symmetric])
qed

lemma parseJson_exit:
  assumes "dropWhile blank (dropWhile json_blank (c_str s)) \<noteq> []"
    and "\<not> value_start (deref (dropWhile blank (dropWhile json_blank (c_str s))))"
  shows "parseJson (Suc n) h (Some s) = Inl ProcessExit"
proof -
  define s' where "s' = dropWhile json_blank (c_str s)"
  have ne: "s' \<noteq> []"
  proof
    assume "s' = []"
    then have "dropWhile blank s' = []" by simp
    with assms(1) show False by (simp add: s'_def)
  qed
  have nb: "\<not> value_start (deref (dropWhile blank s'))" using assms(2) by (simp add: s'_def)
  have nd: "\<not> is_digit (deref s')"
  proof
    assume d: "is_digit (deref s')"
    then have "\<not> blank (hd s')" using ne
      by (cases s') (auto simp: deref_def is_digit_def blank_def)
    then have "dropWhile blank s' = s'" using ne by (cases s') auto
    with nb d show False by (auto simp: value_start_def is_digit_def)
  qed
  have "GetObj (Suc n) h (Some s') = Inl ProcessExit"
    using GetObj_exit[of s' n h] assms(1) nb by (simp add: s'_def)
  then show ?thesis
    using parseJson_GetObj[of s "Suc n" h] ne nd
    by (simp add: s'_def[symmetric] and_then_def del: GetObj.simps)
qed

lemma parseJson_past_end:
  assumes "dropWhile json_blank (c_str s) \<noteq> []"
    and "dropWhile blank (dropWhile json_blank (c_str s)) = []"
  shows "parseJson (Suc n) h (Some s) = Inl Undefined"
proof -
  define s' where "s' = dropWhile json_blank (c_str s)"
  have ne: "s' \<noteq> []" using assms(1) by (simp add: s'_def)
  have "blank (hd s')"
    using assms(2) ne by (cases s') (auto simp: s'_def[symmetric] split: if_splits)
  then have nd: "\<not> is_digit (deref s')"
    using ne by (cases s') (auto simp: deref_def is_digit_def blank_def)
  have "GetObj (Suc n) h (Some s') = Inl Undefined"
    using GetObj_past_end[of s' n h] assms(2) by (simp add: s'_def)
  then show ?thesis
    using parseJson_GetObj[of s "Suc n" h] ne nd
    by (simp add: s'_def[symmetric] and_then_def del: GetObj.simps)
qed

lemma GetObj_map_fail:
  assumes "dropWhile blank js = CHR ''{'' # body"
    and "obj_map_loop n (Suc h) [] [] (deref (dropWhile blank body)) (Some (dropWhile blank body))
           = Inr (h1, m, ord, True, nc)"
    and "GetObj (Suc n) h (Some js) = Inr (h2, p, rest)"
  shows "p = NULL"
  using assms
  by (auto simp: GetObj_body_def DumpWhiteSpace_def and_then_def advance_def Let_def deref_def
      split: option.splits if_splits)

lemma GetObj_array_fail:
  assumes "dropWhile blank js = CHR ''['' # body"
    and "obj_array_loop n (Suc h) [] CHR ''['' (Some (dropWhile blank body))
           = Inr (h1, v, True, nc)"
    and "GetObj (Suc n) h (Some js) = Inr (h2, p, rest)"
  shows "p = NULL"
  using assms
  by (auto simp: GetObj_body_def DumpWhiteSpace_def and_then_def advance_def Let_def deref_def
      split: option.splits if_splits)

lemma obj_map_loop_no_colon:
  assumes "ch \<noteq> NUL" "ch \<noteq> CHR ''}''"
    and "dropWhile blank txt = pre @ CHR 0x22 # name @ CHR 0x22 # after"
    and "CHR 0x22 \<notin> set pre" "CHR 0x22 \<notin> set name"
    and "dropWhile blank after \<noteq> []" "hd (dropWhile blank after) \<noteq> CHR '':''"
  shows "obj_map_loop (Suc n) h m ord ch (Some txt)
           = Inr (h, m, ord, True, Some (dropWhile blank after))"
proof -
  have np: "\<And>x. x \<in> set pre \<Longrightarrow> x \<noteq> CHR 0x22"
    using assms(4) by auto
  have nn: "\<And>x. x \<in> set name \<Longrightarrow> x \<noteq> CHR 0x22"
    using assms(5) by auto
  have q: "dropWhile (\<lambda>c. c \<noteq> CHR 0x22) (pre @ CHR 0x22 # name @ CHR 0x22 # after)
             = CHR 0x22 # name @ CHR 0x22 # after"
    using dropWhile_append2[of pre "\<lambda>c. c \<noteq> CHR 0x22", OF np] by simp
  have nm: "takeWhile (\<lambda>c. c \<noteq> CHR 0x22) (name @ CHR 0x22 # after) = name"
    using takeWhile_append2[of name "\<lambda>c. c \<noteq> CHR 0x22", OF nn] by simp
  have r: "dropWhile (\<lambda>c. c \<noteq> CHR 0x22) (name @ CHR 0x22 # after) = CHR 0x22 # after"
    using dropWhile_append2[of name "\<lambda>c. c \<noteq> CHR 0x22", OF nn] by simp
  have c: "deref (dropWhile blank after) \<noteq> CHR '':''"
    using assms(6,7) by (cases "dropWhile blank after") (auto simp: deref_def)
  have "obj_map_body (GetObj n) (GetTNetstring n) (obj_map_loop n) h m ord ch (Some txt)
          = Inr (h, m, ord, True, Some (dropWhile blank after))"
    unfolding obj_map_body_def DumpWhiteSpace_def and_then_def
    using assms(1,2) c by (simp add: assms(3) q nm r Let_def deref_def NUL_def)
  then show ?thesis by simp
qed

subsection \<open>The difference of a tree with itself\<close>

lemma first_match_distinct:
  assumes "distinct (map fst m)" "(k, p) \<in> set m" "\<forall>e \<in> set m. NUL \<notin> set (fst e)"
  shows "first_match m k = p"
  using assms
proof (induction m)
  case Nil
  then show ?case by simp
next
  case (Cons e m)
  obtain k' p' where e: "e = (k', p')" by (cases e)
  have "NUL \<notin> set k" using Cons.prems(2,3) by force
  then have ck: "c_str k = k" by (rule c_str_id)
  have "NUL \<notin> set k'" using Cons.prems(3) e by simp
  then have ck': "c_str k' = k'" by (rule c_str_id)
  show ?case
  proof (cases "k' = k")
    case True
    then have "p' = p" using Cons.prems(1,2) e by (auto simp: image_iff)
    then show ?thesis using True e by simp
  next
    case False
    then have "(k, p) \<in> set m" using Cons.prems(2) e by auto
    then have "first_match m k = p" using Cons.IH Cons.prems by auto
    then show ?thesis using False e ck ck' by simp
  qed
qed

lemma findElement_own_entry:
  assumes "plain_tree (COMap m ord)" "(k, p) \<in> set m"
  shows "COMap_findElement m (c_str k) = p"
proof -
  have pk: "plain_key k" using assms by (auto simp: list_all_iff)
  have nul: "\<forall>e \<in> set m. NUL \<notin> set (fst e)"
    using assms(1) by (auto simp: list_all_iff plain_key_def)
  have "c_str k = k" using pk by (auto simp: plain_key_def intro: c_str_id)
  moreover have "COMap_findElement m k = first_match m k"
    using pk by (auto simp: plain_key_def intro: findElement_plain_segment)
  moreover have "first_match m k = p"
    using first_match_distinct[OF _ assms(2) nul] assms(1) by simp
  ultimately show ?thesis by simp
qed

lemma CppON_eq_scalar_refl:
  assumes "plain_tree c" "CppON_type c \<noteq> MAP_CPPON_OBJ_TYPE" "CppON_type c \<noteq> ARRAY_CPPON_OBJ_TYPE"
  shows "CppON_eq c c"
  using assms by (cases c) (simp_all add: CppON_eq.simps COInteger_eq_def c_str_id d_eq_def)

lemma appendTag_same:
  assumes "plain_tree c" "CppON_type c \<noteq> MAP_CPPON_OBJ_TYPE" "CppON_type c \<noteq> ARRAY_CPPON_OBJ_TYPE"
  shows "appendTag h k c rm rord c = Inr (h, rm, rord)"
  using assms by (cases c) (simp_all add: appendTag_def c_str_id d_eq_def)

lemma same_is_none_map:
  "same_is_none (COMap nm nord) \<Longrightarrow> \<exists>h'. COMap_diff h nm nm None = Inr (h', NULL)"
  unfolding same_is_none_def CppON_diff_def by simp

lemma same_is_none_array:
  "same_is_none (COArray v) \<Longrightarrow> \<exists>h'. COArray_diff h v v None = Inr (h', NULL)"
  unfolding same_is_none_def CppON_diff_def by simp

lemma COMap_diff_loop_same:
  assumes "\<forall>e \<in> set rest. COMap_findElement m (c_str (fst e)) = snd e
             \<and> (\<exists>a c. snd e = Ptr a c \<and> plain_tree c \<and> same_is_none c)"
  shows "\<exists>h'. COMap_diff_loop h rest m None rm rord = Inr (h', rm, rord)"
  using assms
proof (induction rest arbitrary: h)
  case Nil
  then show ?case by (simp add: COMap_diff_loop.simps)
next
  case (Cons e rest)
  obtain k p where e: "e = (k, p)" by (cases e)
  from Cons.prems e obtain a c where f: "COMap_findElement m (c_str k) = Ptr a c"
    and p: "p = Ptr a c" and pt: "plain_tree c" and sn: "same_is_none c"
    by auto
  have step: "\<exists>h1. (case c of
                        COMap nm _ \<Rightarrow>
                          (case c of
                             COMap om _ \<Rightarrow>
                               (case COMap_diff h nm om None of
                                  Inl e \<Rightarrow> Inl e
                                | Inr (h1, nv) \<Rightarrow>
                                    Inr (if nv \<noteq> NULL then rtn_append h1 rm rord k nv
                                         else (h1, rm, rord)))
                           | _ \<Rightarrow> Inl Undefined)
                      | COArray nv \<Rightarrow>
                          (case c of
                             COArray ov \<Rightarrow>
                               (case COArray_diff h nv ov None of
                                  Inl e \<Rightarrow> Inl e
                                | Inr (h1, na) \<Rightarrow>
                                    Inr (if na \<noteq> NULL then rtn_append h1 rm rord k na
                                         else (h1, rm, rord)))
                           | _ \<Rightarrow> Inl Undefined)
                      | _ \<Rightarrow> appendTag h k c rm rord c) = Inr (h1, rm, rord)"
  proof (cases c)
    case (COMap nm nord)
    with same_is_none_map[of nm nord h] sn show ?thesis by auto
  next
    case (COArray v)
    with same_is_none_array[of v h] sn show ?thesis by auto
  qed (use pt appendTag_same[of c h k rm rord] in auto)
  then obtain h1 where h1: "(case c of
                        COMap nm _ \<Rightarrow>
                          (case c of
                             COMap om _ \<Rightarrow>
                               (case COMap_diff h nm om None of
                                  Inl e \<Rightarrow> Inl e
                                | Inr (h1, nv) \<Rightarrow>
                                    Inr (if nv \<noteq> NULL then rtn_append h1 rm rord k nv
                                         else (h1, rm, rord)))
                           | _ \<Rightarrow> Inl Undefined)
                      | COArray nv \<Rightarrow>
                          (case c of
                             COArray ov \<Rightarrow>
                               (case COArray_diff h nv ov None of
                                  Inl e \<Rightarrow> Inl e
                                | Inr (h1, na) \<Rightarrow>
                                    Inr (if na \<noteq> NULL then rtn_append h1 rm rord k na
                                         else (h1, rm, rord)))
                           | _ \<Rightarrow> Inl Undefined)
                      | _ \<Rightarrow> appendTag h k c rm rord c) = Inr (h1, rm, rord)" ..
  have "COMap_diff_loop h (e # rest) m None rm rord = COMap_diff_loop h1 rest m None rm rord"
    unfolding e by (subst COMap_diff_loop.simps) (simp add: f p h1)
  moreover have "\<exists>h'. COMap_diff_loop h1 rest m None rm rord = Inr (h', rm, rord)"
    using Cons.IH Cons.prems by simp
  ultimately show ?case by simp
qed

lemma COMap_diff_new_same:
  assumes "\<forall>e \<in> set rest. COMap_findElement m (c_str (fst e)) = snd e \<and> snd e \<noteq> NULL"
  shows "COMap_diff_new h m rest rm rord = Inr (h, rm, rord)"
  using assms by (induction rest) auto

lemma COArray_diff_loop_same:
  assumes "\<forall>p \<in> set v. \<exists>a c. p = Ptr a c \<and> plain_tree c \<and> same_is_none c"
    and "u = drop i v"
  shows "\<exists>h'. COArray_diff_loop h v u i None rtn = Inr (h', rtn)"
  using assms(2)
proof (induction u arbitrary: i h)
  case Nil
  then show ?case by (simp add: COArray_diff_loop.simps)
next
  case (Cons nt u)
  have i: "i < length v" using Cons.prems by (metis drop_all leI list.distinct(1))
  have nt: "v ! i = nt" using Cons.prems i by (metis nth_via_drop)
  have u: "u = drop (Suc i) v" using Cons.prems by (metis drop_Suc list.sel(3) tl_drop)
  from assms(1) i nt obtain a c where p: "nt = Ptr a c" and pt: "plain_tree c" and sn: "same_is_none c"
    by (metis nth_mem)
  have step: "\<exists>h1. (case c of
                             COMap nm _ \<Rightarrow>
                               (case c of
                                  COMap om _ \<Rightarrow>
                                    (case COMap_diff h nm om None of
                                       Inl e \<Rightarrow> Inl e
                                     | Inr (h1, nv) \<Rightarrow>
                                         if nv \<noteq> NULL then
                                           (case copy_node (Suc h1) c of
                                              Inl e \<Rightarrow> Inl e
                                            | Inr (h2, c') \<Rightarrow> Inr (h2, Suc i, rtn @ [Ptr h1 c']))
                                         else Inr (h1, Suc i, rtn))
                                | _ \<Rightarrow> Inl Undefined)
                           | COArray nv \<Rightarrow>
                               (case c of
                                  COArray ov \<Rightarrow>
                                    (case COArray_diff h nv ov None of
                                       Inl e \<Rightarrow> Inl e
                                     | Inr (h1, na) \<Rightarrow>
                                         if na \<noteq> NULL then
                                           (case copy_node (Suc h1) c of
                                              Inl e \<Rightarrow> Inl e
                                            | Inr (h2, c') \<Rightarrow> Inr (h2, Suc i, rtn @ [Ptr h1 c']))
                                         else Inr (h1, Suc i, rtn))
                                | _ \<Rightarrow> Inl Undefined)
                           | CONull \<Rightarrow> Inr (h, Suc i, rtn)
                           | _ \<Rightarrow>
                               if differs c c then
                                 (case copy_node (Suc h) c of
                                    Inl e \<Rightarrow> Inl e
                                  | Inr (h2, c') \<Rightarrow> Inr (h2, Suc i, rtn @ [Ptr h c']))
                               else Inr (h, Suc i, rtn)) = Inr (h1, Suc i, rtn)"
  proof (cases c)
    case (COMap nm nord)
    with same_is_none_map[of nm nord h] sn show ?thesis by auto
  next
    case (COArray v)
    with same_is_none_array[of v h] sn show ?thesis by auto
  qed (use pt CppON_eq_scalar_refl[of c] in \<open>auto simp: differs_def\<close>)
  then obtain h1 where h1: "(case c of
                             COMap nm _ \<Rightarrow>
                               (case c of
                                  COMap om _ \<Rightarrow>
                                    (case COMap_diff h nm om None of
                                       Inl e \<Rightarrow> Inl e
                                     | Inr (h1, nv) \<Rightarrow>
                                         if nv \<noteq> NULL then
                                           (case copy_node (Suc h1) c of
                                              Inl e \<Rightarrow> Inl e
                                            | Inr (h2, c') \<Rightarrow> Inr (h2, Suc i, rtn @ [Ptr h1 c']))
                                         else Inr (h1, Suc i, rtn))
                                | _ \<Rightarrow> Inl Undefined)
                           | COArray nv \<Rightarrow>
                               (case c of
                                  COArray ov \<Rightarrow>
                                    (case COArray_diff h nv ov None of
                                       Inl e \<Rightarrow> Inl e
                                     | Inr (h1, na) \<Rightarrow>
                                         if na \<noteq> NULL then
                                           (case copy_node (Suc h1) c of
                                              Inl e \<Rightarrow> Inl e
                                            | Inr (h2, c') \<Rightarrow> Inr (h2, Suc i, rtn @ [Ptr h1 c']))
                                         else Inr (h1, Suc i, rtn))
                                | _ \<Rightarrow> Inl Undefined)
                           | CONull \<Rightarrow> Inr (h, Suc i, rtn)
                           | _ \<Rightarrow>
                               if differs c c then
                                 (case copy_node (Suc h) c of
                                    Inl e \<Rightarrow> Inl e
                                  | Inr (h2, c') \<Rightarrow> Inr (h2, Suc i, rtn @ [Ptr h c']))
                               else Inr (h, Suc i, rtn)) = Inr (h1, Suc i, rtn)" ..
  have "COArray_diff_loop h v (nt # u) i None rtn = COArray_diff_loop h1 v u (Suc i) None rtn"
    by (subst COArray_diff_loop.simps) (simp add: i nt p h1)
  moreover have "\<exists>h'. COArray_diff_loop h1 v u (Suc i) None rtn = Inr (h', rtn)"
    using Cons.IH[OF u] by simp
  ultimately show ?case by simp
qed

lemma diff_same_is_none: "plain_tree c \<Longrightarrow> same_is_none c"
proof (induction "size c" arbitrary: c rule: less_induct)
  case less
  show ?case
  proof (cases c)
    case (COMap m ord)
    have ent: "\<forall>e \<in> set m. COMap_findElement m (c_str (fst e)) = snd e
             \<and> (\<exists>a n. snd e = Ptr a n \<and> plain_tree n \<and> same_is_none n)"
    proof
      fix e assume e: "e \<in> set m"
      obtain k p where kp: "e = (k, p)" by (cases e)
      have f: "COMap_findElement m (c_str k) = p"
        using findElement_own_entry[of m ord k p] less.prems COMap e kp by simp
      have pp: "plain_ptr p" using less.prems COMap e kp by (auto simp: list_all_iff)
      then obtain a n where p: "p = Ptr a n" and pn: "plain_tree n" by (cases p) auto
      have "size n < size c" using entry_size[OF e] kp p COMap by simp
      from less.hyps[OF this pn] have "same_is_none n" .
      then show "COMap_findElement m (c_str (fst e)) = snd e
             \<and> (\<exists>a n. snd e = Ptr a n \<and> plain_tree n \<and> same_is_none n)"
        using f p pn kp by auto
    qed
    have new: "\<forall>e \<in> set m. COMap_findElement m (c_str (fst e)) = snd e \<and> snd e \<noteq> NULL"
      using ent by auto
    show ?thesis
      unfolding same_is_none_def
    proof
      fix h
      from COMap_diff_loop_same[OF ent, of "Suc h" "[]" "[]"]
      obtain h1 where l: "COMap_diff_loop (Suc h) m m None [] [] = Inr (h1, [], [])" by blast
      have "COMap_diff h m m None = Inr (h1, NULL)"
        by (subst COMap_diff.simps) (simp add: l COMap_diff_new_same[OF new])
      then show "\<exists>h'. CppON_diff h c c None = Inr (h', NULL)"
        using COMap by (simp add: CppON_diff_def)
    qed
  next
    case (COArray v)
    have el: "\<forall>p \<in> set v. \<exists>a n. p = Ptr a n \<and> plain_tree n \<and> same_is_none n"
    proof
      fix p assume pv: "p \<in> set v"
      have pp: "plain_ptr p" using less.prems COArray pv by (auto simp: list_all_iff)
      then obtain a n where p: "p = Ptr a n" and pn: "plain_tree n" by (cases p) auto
      have "size n < size c" using element_size[OF pv] p COArray by simp
      from less.hyps[OF this pn] show "\<exists>a n. p = Ptr a n \<and> plain_tree n \<and> same_is_none n"
        using p pn by auto
    qed
    show ?thesis
      unfolding same_is_none_def
    proof
      fix h
      from COArray_diff_loop_same[OF el, of v 0 "Suc h" "[]"]
      obtain h1 where l: "COArray_diff_loop (Suc h) v v 0 None [] = Inr (h1, [])" by auto
      have "COArray_diff h v v None = Inr (h1, NULL)"
        by (subst COArray_diff.simps) (simp add: l)
      then show "\<exists>h'. CppON_diff h c c None = Inr (h', NULL)"
        using COArray by (simp add: CppON_diff_def)
    qed
  qed (use less.prems CppON_eq_scalar_refl[of c] in \<open>auto simp: same_is_none_def CppON_diff_def differs_def\<close>)
qed

lemma COMap_diff_never_empty:
  assumes "COMap_diff h m newObj name = Inr (h', p)"
  shows "p = NULL \<or> (\<exists>rm rord. p = Ptr h (COMap rm rord) \<and> rm \<noteq> [])"
  using assms
  by (subst (asm) COMap_diff.simps) (auto split: sum.splits prod.splits if_splits)

lemma COArray_diff_never_empty:
  assumes "COArray_diff h v u name = Inr (h', p)"
  shows "p = NULL \<or> (\<exists>rtn. p = Ptr h (COArray rtn) \<and> rtn \<noteq> [])"
  using assms
  by (subst (asm) COArray_diff.simps) (auto split: sum.splits prod.splits if_splits)

subsection \<open>The claims\<close>

text \<open>
  C10. For every array and every index \<open>i\<close>, \<^verbatim>\<open>at(i)\<close> returns the null pointer when the
  array has no backing data or \<open>i\<close> is not below the number of elements, and the
  \<open>i\<close>-th element otherwise.
\<close>

theorem COArray_at_spec:
  "COArray_at None i = NULL
   \<and> (length v \<le> unat i \<longrightarrow> COArray_at (Some v) i = NULL)
   \<and> (unat i < length v \<longrightarrow> COArray_at (Some v) i = v ! unat i)"
  by (simp add: COArray_at_def)

theorem COArray_at_spec_witness:
  "COArray_at (Some [Ptr 0 CONull, Ptr 1 (COBoolean True)]) 1 = Ptr 1 (COBoolean True)
   \<and> COArray_at (Some [Ptr 0 CONull, Ptr 1 (COBoolean True)]) 2 = NULL
   \<and> COArray_at None 0 = NULL"
  using COArray_at_spec [of 1 "[Ptr 0 CONull, Ptr 1 (COBoolean True)]"]
        COArray_at_spec [of 2 "[Ptr 0 CONull, Ptr 1 (COBoolean True)]"]
        COArray_at_spec [of 0 "[]"]
  by simp

text \<open>
  C4, as stated: every compound operator stores the exact result saturated to the range of
  the node. It fails on an unsigned node: an unsigned byte holding 250, after \<^verbatim>\<open>+= 10\<close>,
  holds 4, where saturation gives 255.
\<close>

theorem compound_assign_unsigned_wraps:
  "compound_assign CPPON_ADD (COInteger (Some True) (I8 250)) (c_int_lit 10)
     = Inr (COInteger (Some True) (I8 4), c_int_lit 4)
   \<and> spec_saturate True 1 (250 + 10) = 255"
  by (simp add: c_int_lit_def doOperation_def doOperation_store_def promoted_op_def int_ok_def
      doOperation_return_def spec_saturate_def)

text \<open>
  C4, amended. On a signed node of any width, when the exact result \<open>r\<close> of the operator on
  the stored value and \<^verbatim>\<open>(int64_t) val\<close> exists (no division by zero) and fits the 64-bit
  accumulator, the node stores \<open>r\<close> saturated to its range. On an unsigned node the operand
  is cut to the node's width and the node stores the result modulo \<open>2 ^ (8 * siz)\<close> (for the
  product of two 2-byte values, when it fits \<^verbatim>\<open>int\<close>). A signed byte holding 127 holds 127
  after \<^verbatim>\<open>+= 5\<close>.
\<close>

theorem doOperation_stored_value:
  "(arith op (longValue d) (sint val) = Some r \<and> i64_ok r \<longrightarrow>
      (\<exists>d' rv. doOperation (Some False) d sz val op = Inr (d', rv) \<and> siz d' = siz d
         \<and> longValue d' = spec_saturate False (siz d) r))
   \<and> (arith op (unsignedValue d) (uint val mod 2 ^ (8 * siz d)) = Some u
        \<and> (siz d = 2 \<and> op = CPPON_MULTIPLY \<longrightarrow> u < 2 ^ 31) \<longrightarrow>
      (\<exists>d' rv. doOperation (Some True) d sz val op = Inr (d', rv) \<and> siz d' = siz d
         \<and> unsignedValue d' = u mod 2 ^ (8 * siz d)))
   \<and> compound_assign CPPON_ADD (COInteger (Some False) (I8 127)) (c_int_lit 5)
        = Inr (COInteger (Some False) (I8 127), c_int_lit 127)"
  using doOperation_signed [of op d val r sz] doOperation_unsigned [of op d val u sz]
    saturating_example
  by blast

theorem doOperation_stored_value_witness:
  "(\<exists>d' rv. doOperation (Some False) (I8 127) 4 5 CPPON_ADD = Inr (d', rv) \<and> longValue d' = 127)
   \<and> (\<exists>d' rv. doOperation (Some True) (I8 127) 4 5 CPPON_ADD = Inr (d', rv)
        \<and> unsignedValue d' = 132)"
  using doOperation_stored_value [of CPPON_ADD "I8 127" 5 132 4 132]
  by (auto simp add: i64_ok_def spec_saturate_def)

text \<open>
  C3. A \<^verbatim>\<open>CODouble\<close> of precision 2 holding 3.12 keeps 3.12 when 3.1275 is assigned: the
  scaled difference is exactly 0.75, and the test is \<^verbatim>\<open>0.75 < t || -0.75 > t\<close>. The
  claim, like the comment above the class in CppON.hpp, says the value becomes 3.13.
\<close>

theorem CODouble_assign_at_threshold:
  "CODouble_assign_double (CODouble 2 (double_lit (312 / 100))) (double_lit (31275 / 10000))
     = Inr (CODouble 2 (double_lit (312 / 100)))
   \<and> double_lit (313 / 100) \<noteq> double_lit (312 / 100)"
  by code_simp


text \<open>
  C7, as stated: for every map, after \<^verbatim>\<open>append("a/b/c", v)\<close> the call
  \<^verbatim>\<open>findElement("a/b/c")\<close> returns \<open>v\<close>, and a path with a missing segment gives the null
  pointer. On the map \<^verbatim>\<open>{"a": 1}\<close> the call of \<^verbatim>\<open>append\<close> returns -1 and inserts nothing,
  and \<^verbatim>\<open>findElement("a/b/c")\<close> returns the integer node at \<^verbatim>\<open>a\<close>.
\<close>

theorem append_findElement_through_scalar:
  "COMap_append 10 [(''a'', Ptr 1 (COInteger (Some False) (I32 1)))] [''a''] ''a/b/c''
       (Ptr 2 (COBoolean True))
     = (10, - 1, [(''a'', Ptr 1 (COInteger (Some False) (I32 1)))], [''a''])
   \<and> COMap_findElement [(''a'', Ptr 1 (COInteger (Some False) (I32 1)))] ''a/b/c''
     = Ptr 1 (COInteger (Some False) (I32 1))"
  by code_simp

text \<open>
  C7, amended. For every map and every path of plain keys (such as \<^verbatim>\<open>a/b/c\<close>) whose
  segments before the last are each absent or a nested map, \<^verbatim>\<open>append(path, v)\<close> returns 0
  and \<^verbatim>\<open>findElement(path)\<close> then returns exactly \<open>v\<close>. For every path without a colon whose
  lookup arrives at a map without the next segment, \<^verbatim>\<open>findElement\<close> returns the null
  pointer. \<^verbatim>\<open>findElement\<close> has no failing branch: it is a total function to pointers.
\<close>

theorem append_findElement:
  "(plain_path key \<and> path_open m key \<longrightarrow>
      (\<exists>h' m' ord'. COMap_append h m ord key v = (h', 0, m', ord')
         \<and> COMap_findElement m' key = v))
   \<and> (CHR '':'' \<notin> set path \<and> dangling m path \<longrightarrow> COMap_findElement m path = NULL)"
  using append_then_find [of key m h ord v] findElement_dangling [of path m]
  by blast

theorem append_findElement_witness:
  "plain_path ''a/b/c'' \<and> path_open [(''a'', Ptr 1 (COMap [] []))] ''a/b/c''
   \<and> (\<exists>h' m' ord'.
          COMap_append 10 [(''a'', Ptr 1 (COMap [] []))] [''a''] ''a/b/c'' (Ptr 2 (COBoolean True))
            = (h', 0, m', ord')
          \<and> COMap_findElement m' ''a/b/c'' = Ptr 2 (COBoolean True))
   \<and> dangling [(''a'', Ptr 1 (COMap [] []))] ''a/x/y''
   \<and> COMap_findElement [(''a'', Ptr 1 (COMap [] []))] ''a/x/y'' = NULL"
proof -
  have 1: "plain_path ''a/b/c''"
    by (simp add: plain_path_def NUL_def)
  have 2: "path_open [(''a'', Ptr 1 (COMap [] []))] ''a/b/c''"
    by code_simp
  have 3: "dangling [(''a'', Ptr 1 (COMap [] []))] ''a/x/y''"
    by code_simp
  have 4: "CHR '':'' \<notin> set ''a/x/y''"
    by simp
  from append_findElement [of "''a/b/c''" "[(''a'', Ptr 1 (COMap [] []))]" 10 "[''a'']"
      "Ptr 2 (COBoolean True)" "''a/x/y''"] 1 2 3 4
  show ?thesis by blast
qed









text \<open>
  C5: \<^verbatim>\<open>a == b\<close> holds exactly when \<^verbatim>\<open>a\<close> and \<^verbatim>\<open>b\<close> have the same variant and deeply equal
  payloads; in particular two maps with different key sets are not equal. The code differs.
  \<^verbatim>\<open>COMap::operator ==\<close> only looks at the keys of its left operand, so the empty map
  equals every map, \<^verbatim>\<open>{"a":1} == {"a":1,"b":2}\<close> holds while
  \<^verbatim>\<open>{"a":1,"b":2} == {"a":1}\<close> does not; \<^verbatim>\<open>COArray::operator ==\<close>, which does compare the
  sizes, compares the element pointers, so two arrays \<^verbatim>\<open>[1]\<close> with elements at different
  addresses are not equal.
\<close>

theorem COMap_eq_ignores_extra_keys:
  "CppON_eq (COMap [] []) (COMap val ord)
   \<and> CppON_eq (COMap [(''a'', Ptr 1 (COInteger (Some False) (I32 1)))] [''a''])
               (COMap [(''a'', Ptr 2 (COInteger (Some False) (I32 1))),
                       (''b'', Ptr 3 (COInteger (Some False) (I32 2)))] [''a'', ''b''])
   \<and> \<not> CppON_eq (COMap [(''a'', Ptr 2 (COInteger (Some False) (I32 1))),
                         (''b'', Ptr 3 (COInteger (Some False) (I32 2)))] [''a'', ''b''])
                 (COMap [(''a'', Ptr 1 (COInteger (Some False) (I32 1)))] [''a''])
   \<and> \<not> CppON_eq (COArray [Ptr 1 (COInteger (Some False) (I32 1))])
                 (COArray [Ptr 2 (COInteger (Some False) (I32 1))])"
proof -
  have "CppON_eq (COMap [] []) (COMap val ord)"
    by (simp add: CppON_eq.simps)
  moreover have "CppON_eq (COMap [(''a'', Ptr 1 (COInteger (Some False) (I32 1)))] [''a''])
               (COMap [(''a'', Ptr 2 (COInteger (Some False) (I32 1))),
                       (''b'', Ptr 3 (COInteger (Some False) (I32 2)))] [''a'', ''b''])"
    by code_simp
  moreover have "\<not> CppON_eq (COMap [(''a'', Ptr 2 (COInteger (Some False) (I32 1))),
                         (''b'', Ptr 3 (COInteger (Some False) (I32 2)))] [''a'', ''b''])
                 (COMap [(''a'', Ptr 1 (COInteger (Some False) (I32 1)))] [''a''])"
    by code_simp
  moreover have "\<not> CppON_eq (COArray [Ptr 1 (COInteger (Some False) (I32 1))])
                 (COArray [Ptr 2 (COInteger (Some False) (I32 1))])"
    by code_simp
  ultimately show ?thesis
    by blast
qed


text \<open>
  C1: parsing the net-string rendering of a tree, or its pretty JSON rendering, yields a
  tree equal to it. The case \<^verbatim>\<open>'!'\<close> of \<^verbatim>\<open>GetTNetstring\<close> builds \<^verbatim>\<open>COBoolean( true )\<close>
  for the text \<^verbatim>\<open>false\<close> as well, so the rendering \<^verbatim>\<open>5:false!\<close> of a false boolean is
  parsed as true, which \<^verbatim>\<open>==\<close> tells apart from the original. The pretty JSON rendering
  \<^verbatim>\<open>null\<close> of a \<^verbatim>\<open>CONull\<close> ends the process in \<^verbatim>\<open>GetObj\<close>.
\<close>

theorem netstring_false_parses_as_true:
  "toNetString (COBoolean False) = Inr ''5:false!''
   \<and> parseJson (Suc n) h (Some ''5:false!'') = Inr (Ptr h (COBoolean True))
   \<and> \<not> CppON_eq (COBoolean True) (COBoolean False)
   \<and> toJsonString [] CONull = Inr ''null''
   \<and> parseJson (Suc n) h (Some ''null'') = Inl ProcessExit"
proof -
  have "toNetString (COBoolean False) = Inr ''5:false!''"
    by code_simp
  moreover have "parseJson (Suc n) h (Some ''5:false!'') = Inr (Ptr h (COBoolean True))"
    by code_simp
  moreover have "\<not> CppON_eq (COBoolean True) (COBoolean False)"
    by code_simp
  moreover have "toJsonString [] CONull = Inr ''null''"
    by code_simp
  moreover have "parseJson (Suc n) h (Some ''null'') = Inl ProcessExit"
    by code_simp
  ultimately show ?thesis
    by blast
qed

text \<open>
  C6, as stated: on malformed input the parsers return no value, discard a partially built
  container, and never terminate the process. The input \<^verbatim>\<open>x\<close> reaches the last \<^verbatim>\<open>else\<close>
  of \<^verbatim>\<open>GetObj\<close>, which calls \<^verbatim>\<open>exit( 0 )\<close>; so does the closing bracket of the input
  \<^verbatim>\<open>[]\<close>. The net-string \<^verbatim>\<open>6:3:yes!]\<close>, an array whose one element is no boolean, is
  returned as an array that holds a null pointer.
\<close>

theorem parseJson_exits_process:
  "parseJson 1 0 (Some ''x'') = Inl ProcessExit
   \<and> parseJson 3 0 (Some ''[]'') = Inl ProcessExit
   \<and> parseJson 3 0 (Some ''6:3:yes!]'') = Inr (Ptr 0 (COArray [NULL]))"
  by code_simp

text \<open>
  C6, amended. \<^verbatim>\<open>parseJson\<close> returns no value for the null pointer and for an empty or
  blank input. An input whose first significant character exists and cannot start a value
  (it is none of \<^verbatim>\<open>{ [ " t T f F + -\<close> and no digit) ends the process; the letter \<^verbatim>\<open>r\<close>
  counts as white space here, and an input that, after its leading white space, holds
  nothing but spaces, tabs, line feeds and letters \<^verbatim>\<open>r\<close>, and at least one of them, makes
  \<^verbatim>\<open>GetObj\<close> read past the end of the input, which is undefined. In
  \<^verbatim>\<open>GetObj\<close> a JSON map or array whose loop has set \<^verbatim>\<open>fail\<close> is not returned: if the call
  returns, it returns the null pointer, whatever the loop had built; and a turn of the loop
  over a map sets \<^verbatim>\<open>fail\<close>, whatever entries the map holds already, when the next name is
  followed by a character other than a colon. So the input \<^verbatim>\<open>{"a":1,"b" 2}\<close> yields no value. The
  net-string parser does not discard: \<^verbatim>\<open>6:3:yes!]\<close> yields an array holding a null
  pointer.
\<close>

theorem parseJson_failure_paths:
  "parseJson n h None = Inr NULL
   \<and> (dropWhile json_blank (c_str s) = [] \<longrightarrow> parseJson n h (Some s) = Inr NULL)
   \<and> (dropWhile blank (dropWhile json_blank (c_str t)) \<noteq> []
        \<and> \<not> value_start (deref (dropWhile blank (dropWhile json_blank (c_str t))))
        \<longrightarrow> parseJson (Suc n) h (Some t) = Inl ProcessExit)
   \<and> (dropWhile json_blank (c_str u) \<noteq> []
        \<and> dropWhile blank (dropWhile json_blank (c_str u)) = []
        \<longrightarrow> parseJson (Suc n) h (Some u) = Inl Undefined)
   \<and> (dropWhile blank js = CHR ''{'' # body
        \<and> obj_map_loop n (Suc h) [] [] (deref (dropWhile blank body)) (Some (dropWhile blank body))
            = Inr (h1, m, ord, True, nc)
        \<and> GetObj (Suc n) h (Some js) = Inr (h2, p, rest)
        \<longrightarrow> p = NULL)
   \<and> (dropWhile blank ja = CHR ''['' # elems
        \<and> obj_array_loop n (Suc h) [] CHR ''['' (Some (dropWhile blank elems))
            = Inr (h3, v, True, nc')
        \<and> GetObj (Suc n) h (Some ja) = Inr (h4, q, rest')
        \<longrightarrow> q = NULL)
   \<and> (ch \<noteq> NUL \<and> ch \<noteq> CHR ''}''
        \<and> dropWhile blank src = lead @ CHR 0x22 # key @ CHR 0x22 # tail
        \<and> CHR 0x22 \<notin> set lead \<and> CHR 0x22 \<notin> set key
        \<and> dropWhile blank tail \<noteq> [] \<and> hd (dropWhile blank tail) \<noteq> CHR '':''
        \<longrightarrow> obj_map_loop (Suc n) hl mp ordp ch (Some src)
              = Inr (hl, mp, ordp, True, Some (dropWhile blank tail)))
   \<and> parseJson (Suc (Suc (Suc n))) h (Some ''{\"a\":1,\"b\" 2}'') = Inr NULL
   \<and> parseJson (Suc (Suc (Suc n))) h (Some ''6:3:yes!]'') = Inr (Ptr h (COArray [NULL]))"
proof -
  have "parseJson n h None = Inr NULL"
    by (simp add: parseJson_def)
  moreover have "parseJson (Suc (Suc (Suc n))) h (Some ''{\"a\":1,\"b\" 2}'') = Inr NULL"
    by code_simp
  moreover have "parseJson (Suc (Suc (Suc n))) h (Some ''6:3:yes!]'') = Inr (Ptr h (COArray [NULL]))"
    by code_simp
  ultimately show ?thesis
    using parseJson_blank [of s n h] parseJson_exit [of t n h] parseJson_past_end [of u n h]
      GetObj_map_fail [of js body n h h1 m ord nc h2 p rest]
      GetObj_array_fail [of ja elems n h h3 v nc' h4 q rest']
      obj_map_loop_no_colon [of ch src lead key tail n hl mp ordp]
    by blast
qed

theorem parseJson_failure_paths_witness:
  "dropWhile json_blank (c_str '' '') = []
   \<and> parseJson 2 0 (Some '' '') = Inr NULL
   \<and> dropWhile blank (dropWhile json_blank (c_str ''null'')) \<noteq> []
   \<and> \<not> value_start (deref (dropWhile blank (dropWhile json_blank (c_str ''null''))))
   \<and> parseJson (Suc 2) 0 (Some ''null'') = Inl ProcessExit
   \<and> dropWhile json_blank (c_str ''r'') \<noteq> []
   \<and> dropWhile blank (dropWhile json_blank (c_str ''r'')) = []
   \<and> parseJson (Suc 2) 0 (Some ''r'') = Inl Undefined
   \<and> obj_map_loop 2 (Suc 0) [] [] (deref (dropWhile blank ''\"a\":1,\"b\" 2}''))
        (Some (dropWhile blank ''\"a\":1,\"b\" 2}''))
       = Inr (2, [(''a'', Ptr 1 (COInteger (Some True) (I64 1)))], [''a''], True, Some ''2}'')
   \<and> GetObj (Suc 2) 0 (Some ''{\"a\":1,\"b\" 2}'') = Inr (2, NULL, Some ''}'')
   \<and> obj_array_loop 2 (Suc 0) [] CHR ''['' (Some (dropWhile blank ''1 2]''))
       = Inr (2, [Ptr 1 (COInteger (Some True) (I64 1))], True, Some ''2]'')
   \<and> GetObj (Suc 2) 0 (Some ''[1 2]'') = Inr (2, NULL, Some '']'')
   \<and> obj_map_loop (Suc 2) 2 [(''a'', Ptr 1 (COInteger (Some True) (I64 1)))] [''a''] CHR '',''
        (Some ''\"b\" 2}'')
       = Inr (2, [(''a'', Ptr 1 (COInteger (Some True) (I64 1)))], [''a''], True, Some ''2}'')"
proof -
  let ?m = "[(''a'', Ptr 1 (COInteger (Some True) (I64 1)))]"
  let ?v = "[Ptr 1 (COInteger (Some True) (I64 1))]"
  have 1: "dropWhile json_blank (c_str '' '') = []"
    by code_simp
  have 2: "dropWhile blank (dropWhile json_blank (c_str ''null'')) \<noteq> []"
    by code_simp
  have 3: "\<not> value_start (deref (dropWhile blank (dropWhile json_blank (c_str ''null''))))"
    by code_simp
  have 4: "dropWhile json_blank (c_str ''r'') \<noteq> []"
    by code_simp
  have 5: "dropWhile blank (dropWhile json_blank (c_str ''r'')) = []"
    by code_simp
  have 6: "dropWhile blank ''{\"a\":1,\"b\" 2}'' = CHR ''{'' # ''\"a\":1,\"b\" 2}''"
    by code_simp
  have 7: "obj_map_loop 2 (Suc 0) [] [] (deref (dropWhile blank ''\"a\":1,\"b\" 2}''))
        (Some (dropWhile blank ''\"a\":1,\"b\" 2}'')) = Inr (2, ?m, [''a''], True, Some ''2}'')"
    by code_simp
  have 8: "GetObj (Suc 2) 0 (Some ''{\"a\":1,\"b\" 2}'') = Inr (2, NULL, Some ''}'')"
    by code_simp
  have 9: "dropWhile blank ''[1 2]'' = CHR ''['' # ''1 2]''"
    by code_simp
  have 10: "obj_array_loop 2 (Suc 0) [] CHR ''['' (Some (dropWhile blank ''1 2]''))
       = Inr (2, ?v, True, Some ''2]'')"
    by code_simp
  have 11: "GetObj (Suc 2) 0 (Some ''[1 2]'') = Inr (2, NULL, Some '']'')"
    by code_simp
  have 12: "CHR '','' \<noteq> NUL" "CHR '','' \<noteq> CHR ''}''"
    "dropWhile blank ''\"b\" 2}'' = [] @ CHR 0x22 # ''b'' @ CHR 0x22 # '' 2}''"
    "CHR 0x22 \<notin> set []" "CHR 0x22 \<notin> set ''b''"
    "dropWhile blank '' 2}'' = ''2}''"
    by code_simp+
  have 13: "dropWhile blank '' 2}'' \<noteq> []" "hd (dropWhile blank '' 2}'') \<noteq> CHR '':''"
    by code_simp+
  note inst = parseJson_failure_paths [where n = 2 and h = 0 and s = "'' ''" and t = "''null''"
      and u = "''r''" and js = "''{\"a\":1,\"b\" 2}''" and body = "''\"a\":1,\"b\" 2}''"
      and ?h1.0 = 2 and m = ?m and ord = "[''a'']" and nc = "Some ''2}''" and ?h2.0 = 2
      and p = NULL and rest = "Some ''}''" and ja = "''[1 2]''" and elems = "''1 2]''"
      and ?h3.0 = 2 and v = ?v and nc' = "Some ''2]''" and ?h4.0 = 2 and q = NULL
      and rest' = "Some '']''" and ch = "CHR '',''" and src = "''\"b\" 2}''" and lead = "[]"
      and key = "''b''" and tail = "'' 2}''" and hl = 2 and mp = ?m and ordp = "[''a'']"]
  from inst 1 have a: "parseJson 2 0 (Some '' '') = Inr NULL"
    by blast
  from inst 2 3 have b: "parseJson (Suc 2) 0 (Some ''null'') = Inl ProcessExit"
    by blast
  from inst 4 5 have c: "parseJson (Suc 2) 0 (Some ''r'') = Inl Undefined"
    by blast
  from inst 12(1-5) 13 have "obj_map_loop (Suc 2) 2 ?m [''a''] CHR '','' (Some ''\"b\" 2}'')
       = Inr (2, ?m, [''a''], True, Some (dropWhile blank '' 2}''))"
    by blast
  then have d: "obj_map_loop (Suc 2) 2 ?m [''a''] CHR '','' (Some ''\"b\" 2}'')
       = Inr (2, ?m, [''a''], True, Some ''2}'')"
    by (simp only: 12(6))
  from 1 2 3 4 5 7 8 10 11 a b c d show ?thesis
    by blast
qed

text \<open>
  C8, as stated: \<^verbatim>\<open>diff(A, A)\<close> returns none for all trees \<^verbatim>\<open>A\<close>. \<^verbatim>\<open>COMap::diff\<close> looks
  the keys up with \<^verbatim>\<open>findElement\<close>, which reads a colon as an index into an array. In the
  map \<^verbatim>\<open>{"x:1": true}\<close> the key \<^verbatim>\<open>x:1\<close> is looked up as the key \<^verbatim>\<open>x\<close>, is not found, and
  the second loop copies the entry into the result. A double that is a NaN differs from
  itself, so the map \<^verbatim>\<open>{"a": nan}\<close> has a difference with itself as well.
\<close>

theorem diff_of_colon_key:
  "CppON_diff 10 (COMap [(''x:1'', Ptr 1 (COBoolean True))] [''x:1''])
                 (COMap [(''x:1'', Ptr 1 (COBoolean True))] [''x:1'']) None
     = Inr (12, Ptr 10 (COMap [(''x:1'', Ptr 11 (COBoolean True))] [''x:1'']))
   \<and> CppON_diff 10 (COMap [(''a'', Ptr 1 (CODouble 10 (NaN False)))] [''a''])
                   (COMap [(''a'', Ptr 1 (CODouble 10 (NaN False)))] [''a'']) None
     = Inr (12, Ptr 10 (COMap [(''a'', Ptr 11 (CODouble (- 1) (NaN False)))] [''a'']))"
  by code_simp

text \<open>
  C8, amended. For every tree \<^verbatim>\<open>A\<close> whose nodes all hold data, whose maps hold each key
  once (as a \<^verbatim>\<open>std::map\<close> does), whose keys hold no colon, slash or NUL, whose strings hold
  no NUL, whose doubles are no NaN and which has no null child, \<^verbatim>\<open>diff(A, A)\<close> with the
  default \<^verbatim>\<open>name\<close> (the null pointer) returns null.
  Whatever the operands, \<^verbatim>\<open>COMap::diff\<close> and \<^verbatim>\<open>COArray::diff\<close>, when they return, return
  null or a container with at least one entry, never an empty container.
\<close>

theorem diff_idempotent:
  "(plain_tree a \<longrightarrow> (\<exists>h'. CppON_diff h a a None = Inr (h', NULL)))
   \<and> (COMap_diff h m newObj name = Inr (h1, p) \<longrightarrow>
        p = NULL \<or> (\<exists>rm rord. p = Ptr h (COMap rm rord) \<and> rm \<noteq> []))
   \<and> (COArray_diff h v u name = Inr (h2, q) \<longrightarrow>
        q = NULL \<or> (\<exists>rtn. q = Ptr h (COArray rtn) \<and> rtn \<noteq> []))"
  using diff_same_is_none [of a] COMap_diff_never_empty [of h m newObj name h1 p]
    COArray_diff_never_empty [of h v u name h2 q]
  unfolding same_is_none_def by blast

theorem diff_idempotent_witness:
  "plain_tree (COMap [(''a'', Ptr 1 (COBoolean True)),
                      (''b'', Ptr 2 (COArray [Ptr 3 (COString ''q''),
                                             Ptr 4 (COMap [(''k'', Ptr 5 CONull)] [''k''])]))]
                     [''a'', ''b''])
   \<and> (\<exists>h'. CppON_diff 10
         (COMap [(''a'', Ptr 1 (COBoolean True)),
                 (''b'', Ptr 2 (COArray [Ptr 3 (COString ''q''),
                                        Ptr 4 (COMap [(''k'', Ptr 5 CONull)] [''k''])]))]
                [''a'', ''b''])
         (COMap [(''a'', Ptr 1 (COBoolean True)),
                 (''b'', Ptr 2 (COArray [Ptr 3 (COString ''q''),
                                        Ptr 4 (COMap [(''k'', Ptr 5 CONull)] [''k''])]))]
                [''a'', ''b'']) None = Inr (h', NULL))
   \<and> COMap_diff 10 [(''a'', Ptr 1 (COBoolean True))] [(''a'', Ptr 6 (COBoolean False))] None
       = Inr (12, Ptr 10 (COMap [(''a'', Ptr 11 (COBoolean False))] [''a'']))
   \<and> (\<exists>rm rord. Ptr 10 (COMap [(''a'', Ptr 11 (COBoolean False))] [''a'']) = Ptr 10 (COMap rm rord)
         \<and> rm \<noteq> [])
   \<and> COArray_diff 10 [Ptr 1 (COBoolean True)] [Ptr 6 (COBoolean False)] None
       = Inr (12, Ptr 10 (COArray [Ptr 11 (COBoolean False)]))
   \<and> (\<exists>rtn. Ptr 10 (COArray [Ptr 11 (COBoolean False)]) = Ptr 10 (COArray rtn) \<and> rtn \<noteq> [])"
proof -
  let ?a = "COMap [(''a'', Ptr 1 (COBoolean True)),
                   (''b'', Ptr 2 (COArray [Ptr 3 (COString ''q''),
                                          Ptr 4 (COMap [(''k'', Ptr 5 CONull)] [''k''])]))]
                  [''a'', ''b'']"
  let ?p = "Ptr 10 (COMap [(''a'', Ptr 11 (COBoolean False))] [''a''])"
  let ?q = "Ptr 10 (COArray [Ptr 11 (COBoolean False)])"
  have 1: "plain_tree ?a"
    by code_simp
  have 2: "COMap_diff 10 [(''a'', Ptr 1 (COBoolean True))] [(''a'', Ptr 6 (COBoolean False))] None
       = Inr (12, ?p)"
    by code_simp
  have 3: "COArray_diff 10 [Ptr 1 (COBoolean True)] [Ptr 6 (COBoolean False)] None = Inr (12, ?q)"
    by code_simp
  have 4: "?p \<noteq> NULL" "?q \<noteq> NULL"
    by simp_all
  note inst = diff_idempotent [of ?a 10 "[(''a'', Ptr 1 (COBoolean True))]"
      "[(''a'', Ptr 6 (COBoolean False))]" None 12 ?p "[Ptr 1 (COBoolean True)]"
      "[Ptr 6 (COBoolean False)]" 12 ?q]
  from inst 1 have 5: "\<exists>h'. CppON_diff 10 ?a ?a None = Inr (h', NULL)"
    by blast
  from inst 2 4 have 6: "\<exists>rm rord. ?p = Ptr 10 (COMap rm rord) \<and> rm \<noteq> []"
    by blast
  from inst 3 4 have 7: "\<exists>rtn. ?q = Ptr 10 (COArray rtn) \<and> rtn \<noteq> []"
    by blast
  from 1 2 3 5 6 7 show ?thesis
    by blast
qed

end
